theory Spec2Isabelle
  imports Main "HOL-Library.AList"
begin

section \<open>Python strings\<close>

text \<open>
  A Python \<open>str\<close> is a sequence of Unicode code points; a code point is an
  integer.  ASCII literals of the source are written with \<open>u\<close>.
\<close>

type_synonym uchar = int
type_synonym ustr = "uchar list"

definition u :: "string \<Rightarrow> ustr" where
  "u s = map of_char s"

fun startswith :: "ustr \<Rightarrow> ustr \<Rightarrow> bool" where
  "startswith s [] = True"
| "startswith [] (p # ps) = False"
| "startswith (c # cs) (p # ps) = (c = p \<and> startswith cs ps)"

text \<open>\<open>needle in s\<close> for strings.\<close>

fun contains :: "ustr \<Rightarrow> ustr \<Rightarrow> bool" where
  "contains [] needle = (needle = [])"
| "contains (c # cs) needle = (startswith (c # cs) needle \<or> contains cs needle)"

section \<open>The HTTP boundary\<close>

text \<open>
  The \<open>requests\<close> library is outside the repository.  One call of \<open>get\<close> either raises
  a transport-level \<open>RequestException\<close> or returns a response.
  \<open>raise_for_status\<close> raises \<open>HTTPError\<close>, itself a \<open>RequestException\<close>, exactly for the
  status codes 400 to 599.  \<open>resp_text\<close> is \<open>resp.text\<close> under the declared encoding,
  \<open>apparent_text\<close> is \<open>resp.text\<close> after \<open>resp.encoding = resp.apparent_encoding\<close>.
\<close>

datatype transport_failure = ConnectionError | Timeout

datatype request_exception = Transport transport_failure | HTTPError nat

datatype exn = RequestException request_exception | TypeError | ValueError

record response =
  status_code :: nat
  resp_text :: ustr
  apparent_text :: ustr

datatype get_result = Raises transport_failure | Responds response

definition http_error_status :: "response \<Rightarrow> bool" where
  "http_error_status resp = (400 \<le> status_code resp \<and> status_code resp < 600)"

definition raise_for_status :: "response \<Rightarrow> request_exception option" where
  "raise_for_status resp =
     (if http_error_status resp then Some (HTTPError (status_code resp)) else None)"

text \<open>What a fetch printed, and the record of one run of a fetch.\<close>

datatype log =
    WarnRetry request_exception nat
  | WarnStatus nat
  | WarnError request_exception nat
  | ErrorFailed "request_exception option"

record 'a fetch_run =
  result :: 'a
  attempts :: nat
  slept :: "nat list"
  printed :: "log list"

subsection \<open>\<open>baitoru_scraper.fetch_html\<close>\<close>

definition MAX_RETRIES :: int where
  "MAX_RETRIES = 3"

text \<open>
  \<open>BASE_BACKOFF_SEC\<close> is the integer 3 in \<open>baitoru_scraper.py\<close> and the float 3.0 in
  \<open>fetch_info_baitoru.py\<close>; the products with 1, 2, 3 are exact in both.
\<close>

definition BASE_BACKOFF_SEC :: nat where
  "BASE_BACKOFF_SEC = 3"

text \<open>The sleep after the failed attempt with loop index \<open>i\<close>.\<close>

definition backoff :: "nat \<Rightarrow> nat" where
  "backoff i = BASE_BACKOFF_SEC * (i + 1)"

text \<open>
  The body of the \<open>try\<close>: \<open>requests.get\<close>, then \<open>raise_for_status\<close>, then \<open>resp.text\<close>.
\<close>

definition scraper_try :: "get_result \<Rightarrow> request_exception + ustr" where
  "scraper_try g =
     (case g of
        Raises e \<Rightarrow> Inl (Transport e)
      | Responds resp \<Rightarrow>
          (case raise_for_status resp of
             Some e \<Rightarrow> Inl e
           | None \<Rightarrow> Inr (resp_text resp)))"

text \<open>
  \<open>for i in range(max_retries)\<close>: the first numeric argument counts the iterations
  left, \<open>i\<close> is the loop index, which is also the number of \<open>get\<close> calls made so far.
  After the loop, \<open>raise last_exc\<close>; with \<open>last_exc = None\<close> Python raises \<open>TypeError\<close>.
\<close>

fun scraper_fetch_loop ::
  "(nat \<Rightarrow> get_result) \<Rightarrow> int \<Rightarrow> nat \<Rightarrow> nat \<Rightarrow> request_exception option \<Rightarrow>
   nat list \<Rightarrow> log list \<Rightarrow> (exn + ustr) fetch_run" where
  "scraper_fetch_loop get max_retries 0 i last_exc sl pr =
     \<lparr>result = (case last_exc of None \<Rightarrow> Inl TypeError | Some e \<Rightarrow> Inl (RequestException e)),
      attempts = i, slept = sl, printed = pr\<rparr>"
| "scraper_fetch_loop get max_retries (Suc n) i last_exc sl pr =
     (case scraper_try (get i) of
        Inr txt \<Rightarrow> \<lparr>result = Inr txt, attempts = Suc i, slept = sl, printed = pr\<rparr>
      | Inl exc \<Rightarrow>
          (if int i < max_retries - 1
           then scraper_fetch_loop get max_retries n (Suc i) (Some exc)
                  (sl @ [backoff i]) (pr @ [WarnRetry exc (i + 1)])
           else scraper_fetch_loop get max_retries n (Suc i) (Some exc) sl pr))"

definition scraper_fetch_html :: "(nat \<Rightarrow> get_result) \<Rightarrow> int \<Rightarrow> (exn + ustr) fetch_run" where
  "scraper_fetch_html get max_retries =
     scraper_fetch_loop get max_retries (nat max_retries) 0 None [] []"

subsection \<open>\<open>fetch_info_baitoru.fetch_html\<close>\<close>

text \<open>
  Status 200 returns the text, any other status returns \<open>None\<close> at once; a
  \<open>RequestException\<close> is recorded, reported and slept on, on every attempt.
\<close>

fun crawler_fetch_loop ::
  "(nat \<Rightarrow> get_result) \<Rightarrow> nat \<Rightarrow> nat \<Rightarrow> request_exception option \<Rightarrow>
   nat list \<Rightarrow> log list \<Rightarrow> (ustr option) fetch_run" where
  "crawler_fetch_loop get 0 i last_exc sl pr =
     \<lparr>result = None, attempts = i, slept = sl, printed = pr @ [ErrorFailed last_exc]\<rparr>"
| "crawler_fetch_loop get (Suc n) i last_exc sl pr =
     (case get i of
        Responds resp \<Rightarrow>
          (if status_code resp = 200
           then \<lparr>result = Some (apparent_text resp), attempts = Suc i, slept = sl, printed = pr\<rparr>
           else \<lparr>result = None, attempts = Suc i, slept = sl,
                 printed = pr @ [WarnStatus (status_code resp)]\<rparr>)
      | Raises e \<Rightarrow>
          crawler_fetch_loop get n (Suc i) (Some (Transport e))
            (sl @ [backoff i]) (pr @ [WarnError (Transport e) (i + 1)]))"

definition crawler_fetch_html :: "(nat \<Rightarrow> get_result) \<Rightarrow> (ustr option) fetch_run" where
  "crawler_fetch_html get = crawler_fetch_loop get (nat MAX_RETRIES) 0 None [] []"

text \<open>
  An attempt of \<open>baitoru_scraper.fetch_html\<close> fails when \<open>get\<close> raises or the status is
  400 to 599.
\<close>

definition attempt_fails :: "get_result \<Rightarrow> bool" where
  "attempt_fails g = (case g of Raises e \<Rightarrow> True | Responds resp \<Rightarrow> http_error_status resp)"

text \<open>Scripted servers used in the examples.\<close>

definition flaky_503 :: "nat \<Rightarrow> get_result" where
  "flaky_503 i =
     (if i = 0 then Responds \<lparr>status_code = 503, resp_text = u ''busy'', apparent_text = u ''busy''\<rparr>
      else Responds \<lparr>status_code = 200, resp_text = u ''ok'', apparent_text = u ''ok''\<rparr>)"

definition always_timeout :: "nat \<Rightarrow> get_result" where
  "always_timeout i = Raises Timeout"

definition fail_twice :: "nat \<Rightarrow> get_result" where
  "fail_twice i =
     (if i < 2 then Raises ConnectionError
      else Responds \<lparr>status_code = 200, resp_text = u ''page'', apparent_text = u ''page''\<rparr>)"

section \<open>The regular expressions of the source\<close>

text \<open>
  Each compiled pattern of the source is written as its matcher at one start
  position; \<open>re.search\<close> tries the start positions from left to right, the end of the
  string included, and returns the first match.
\<close>

fun re_search :: "(ustr \<Rightarrow> 'a option) \<Rightarrow> ustr \<Rightarrow> 'a option" where
  "re_search m [] = m []"
| "re_search m (c # cs) = (case m (c # cs) of Some r \<Rightarrow> Some r | None \<Rightarrow> re_search m cs)"

fun re_test :: "(ustr \<Rightarrow> bool) \<Rightarrow> ustr \<Rightarrow> bool" where
  "re_test m [] = m []"
| "re_test m (c # cs) = (m (c # cs) \<or> re_test m cs)"

subsection \<open>\<open>PREF_PATTERN\<close> and \<open>extract_prefecture\<close>\<close>

text \<open>
  The pattern is \<open>(A|B|C|D|..E)\<close> where \<open>A\<close> is Hokkaido (U+5317 U+6D77 U+9053),
  \<open>B\<close> is Tokyo-to (U+6771 U+4EAC U+90FD), \<open>C\<close> is Kyoto-fu (U+4EAC U+90FD U+5E9C),
  \<open>D\<close> is Osaka-fu (U+5927 U+962A U+5E9C) and \<open>E\<close> is the character \<open>ken\<close> (U+770C).
  A dot matches every character but the newline.
\<close>

definition hokkaido :: ustr where
  "hokkaido = [0x5317, 0x6D77, 0x9053]"

definition tokyo_to :: ustr where
  "tokyo_to = [0x6771, 0x4EAC, 0x90FD]"

definition kyoto_fu :: ustr where
  "kyoto_fu = [0x4EAC, 0x90FD, 0x5E9C]"

definition osaka_fu :: ustr where
  "osaka_fu = [0x5927, 0x962A, 0x5E9C]"

definition ken :: uchar where
  "ken = 0x770C"

definition dot :: "uchar \<Rightarrow> bool" where
  "dot c = (c \<noteq> 10)"

definition PREF_PATTERN :: "ustr \<Rightarrow> ustr option" where
  "PREF_PATTERN s =
     (if startswith s hokkaido then Some hokkaido
      else if startswith s tokyo_to then Some tokyo_to
      else if startswith s kyoto_fu then Some kyoto_fu
      else if startswith s osaka_fu then Some osaka_fu
      else (case s of
              a # b # c # rest \<Rightarrow> (if dot a \<and> dot b \<and> c = ken then Some [a, b, c] else None)
            | _ \<Rightarrow> None))"

text \<open>\<open>address_text\<close> is \<open>None\<close> or a string; \<open>not address_text\<close> holds for \<open>None\<close> and for \<open>""\<close>.\<close>

definition extract_prefecture :: "ustr option \<Rightarrow> ustr option" where
  "extract_prefecture address_text =
     (case address_text of
        None \<Rightarrow> None
      | Some s \<Rightarrow> (if s = [] then None else re_search PREF_PATTERN s))"

text \<open>
  Kanagawa-ken (U+795E U+5948 U+5DDD U+770C), one of the 47 prefectures, and the
  address "Kanagawa-ken Yokohama-shi" (followed by U+6A2A U+6D5C U+5E02).
\<close>

definition kanagawa_ken :: ustr where
  "kanagawa_ken = [0x795E, 0x5948, 0x5DDD, 0x770C]"

definition kanagawa_yokohama :: ustr where
  "kanagawa_yokohama = kanagawa_ken @ [0x6A2A, 0x6D5C, 0x5E02]"

subsection \<open>Matching under \<open>re.IGNORECASE\<close>\<close>

text \<open>
  The characters that a lower-case pattern letter matches under \<open>re.IGNORECASE\<close> on a
  \<open>str\<close> pattern: itself and its upper case; \<open>i\<close> also matches U+0130 and U+0131, and
  \<open>s\<close> also matches U+017F.  Any other pattern character of the source (\<open>/\<close>)
  matches only itself.
\<close>

definition ic_class :: "uchar \<Rightarrow> uchar list" where
  "ic_class p =
     (if p = 0x69 then [0x69, 0x49, 0x130, 0x131]
      else if p = 0x73 then [0x73, 0x53, 0x17F]
      else if 0x61 \<le> p \<and> p \<le> 0x7A then [p, p - 32]
      else [p])"

definition ic_eq :: "uchar \<Rightarrow> uchar \<Rightarrow> bool" where
  "ic_eq p c = (c \<in> set (ic_class p))"

text \<open>A literal at the head of the subject; the result is what follows the literal.\<close>

fun ic_literal :: "ustr \<Rightarrow> ustr \<Rightarrow> ustr option" where
  "ic_literal [] s = Some s"
| "ic_literal (p # ps) [] = None"
| "ic_literal (p # ps) (c # cs) = (if ic_eq p c then ic_literal ps cs else None)"

subsection \<open>\<open>CJLIST_RE\<close>\<close>

text \<open>
  \<open>/cjlist(\d+)/\<close> with \<open>re.IGNORECASE\<close>.  The class \<open>\d\<close> of a \<open>str\<close> pattern is the
  Unicode decimal digits; it is a parameter \<open>d\<close> here.  \<open>digits_slash\<close> is \<open>(\d+)/\<close>:
  greedy, giving back one digit at a time until a slash follows; the result is
  group 1.
\<close>

definition slash :: uchar where
  "slash = 0x2F"

fun digits_slash :: "(uchar \<Rightarrow> bool) \<Rightarrow> ustr \<Rightarrow> ustr option" where
  "digits_slash d [] = None"
| "digits_slash d (c # cs) =
     (if d c
      then (case digits_slash d cs of
              Some r \<Rightarrow> Some (c # r)
            | None \<Rightarrow> (if startswith cs [slash] then Some [c] else None))
      else None)"

definition CJLIST_RE :: "(uchar \<Rightarrow> bool) \<Rightarrow> ustr \<Rightarrow> ustr option" where
  "CJLIST_RE d s =
     (case ic_literal (u ''/cjlist'') s of
        None \<Rightarrow> None
      | Some rest \<Rightarrow> digits_slash d rest)"

subsection \<open>\<open>JOB_DETAIL_RE\<close>\<close>

text \<open>
  \<open>/job[0-9]+|/jobview/|/detail/\<close> with \<open>re.IGNORECASE\<close>; the source only asks whether
  it matches somewhere, so the first alternative needs one digit after \<open>/job\<close>.
\<close>

definition ascii_digit :: "uchar \<Rightarrow> bool" where
  "ascii_digit c = (0x30 \<le> c \<and> c \<le> 0x39)"

definition JOB_DETAIL_RE :: "ustr \<Rightarrow> bool" where
  "JOB_DETAIL_RE s =
     ((case ic_literal (u ''/job'') s of Some (c # rest) \<Rightarrow> ascii_digit c | _ \<Rightarrow> False) \<or>
      (case ic_literal (u ''/jobview/'') s of Some rest \<Rightarrow> True | None \<Rightarrow> False) \<or>
      (case ic_literal (u ''/detail/'') s of Some rest \<Rightarrow> True | None \<Rightarrow> False))"

section \<open>Parsed pages\<close>

text \<open>
  \<open>BeautifulSoup(html, "lxml")\<close> is outside the repository.  Its result is modelled
  by the list of the nodes below the document root: a node is a string or a tag
  with its name (lower case, as the HTML parser gives it), its attributes and its
  children.  The queries below are the calls of the \<open>bs4\<close> interface that the
  source makes, written over this tree.
\<close>

datatype node = Text ustr | Tag ustr "(ustr \<times> ustr) list" "node list"

text \<open>A node followed by everything below it, in document order.\<close>

fun descendants_self :: "node \<Rightarrow> node list" where
  "descendants_self (Text s) = [Text s]"
| "descendants_self (Tag name attrs cs) = Tag name attrs cs # concat (map descendants_self cs)"

definition descendants :: "node list \<Rightarrow> node list" where
  "descendants cs = concat (map descendants_self cs)"

definition children :: "node \<Rightarrow> node list" where
  "children n = (case n of Text s \<Rightarrow> [] | Tag name attrs cs \<Rightarrow> cs)"

text \<open>\<open>tag.get(key)\<close> and \<open>tag.get(key, default)\<close>.\<close>

definition tag_get :: "node \<Rightarrow> ustr \<Rightarrow> ustr option" where
  "tag_get n key = (case n of Text s \<Rightarrow> None | Tag name attrs cs \<Rightarrow> map_of attrs key)"

definition tag_get_default :: "node \<Rightarrow> ustr \<Rightarrow> ustr \<Rightarrow> ustr" where
  "tag_get_default n key dflt = (case tag_get n key of None \<Rightarrow> dflt | Some v \<Rightarrow> v)"

definition is_tag :: "ustr \<Rightarrow> node \<Rightarrow> bool" where
  "is_tag nm n = (case n of Text s \<Rightarrow> False | Tag name attrs cs \<Rightarrow> name = nm)"

text \<open>
  The \<open>href\<close> of an anchor that has one: \<open>find_all("a", href=True)\<close> selects these
  anchors, and the source reads \<open>a["href"]\<close> of each.
\<close>

definition a_href :: "node \<Rightarrow> ustr option" where
  "a_href n = (if is_tag (u ''a'') n then tag_get n (u ''href'') else None)"

definition find_all_a_href :: "node list \<Rightarrow> ustr list" where
  "find_all_a_href soup = List.map_filter a_href (descendants soup)"

text \<open>\<open>li.find("a", href=True)\<close> followed by \<open>a["href"]\<close>: the first such anchor below \<open>li\<close>.\<close>

definition tag_find_a_href :: "node \<Rightarrow> ustr option" where
  "tag_find_a_href li =
     (case List.map_filter a_href (descendants (children li)) of
        [] \<Rightarrow> None
      | h # hs \<Rightarrow> Some h)"

text \<open>
  Attributes such as \<open>class\<close> and \<open>rel\<close> hold a list of tokens separated by white
  space.  \<open>py_isspace\<close> is the white space of Python's \<open>str\<close>.
\<close>

definition py_isspace :: "uchar \<Rightarrow> bool" where
  "py_isspace c =
     ((0x9 \<le> c \<and> c \<le> 0xD) \<or> (0x1C \<le> c \<and> c \<le> 0x20) \<or> c = 0x85 \<or> c = 0xA0 \<or>
      c = 0x1680 \<or> (0x2000 \<le> c \<and> c \<le> 0x200A) \<or> c = 0x2028 \<or> c = 0x2029 \<or>
      c = 0x202F \<or> c = 0x205F \<or> c = 0x3000)"

fun tokens_from :: "ustr \<Rightarrow> ustr \<Rightarrow> ustr list" where
  "tokens_from cur [] = (if cur = [] then [] else [cur])"
| "tokens_from cur (c # cs) =
     (if py_isspace c
      then (if cur = [] then tokens_from [] cs else cur # tokens_from [] cs)
      else tokens_from (cur @ [c]) cs)"

definition tokens :: "ustr \<Rightarrow> ustr list" where
  "tokens s = tokens_from [] s"

definition has_token :: "node \<Rightarrow> ustr \<Rightarrow> ustr \<Rightarrow> bool" where
  "has_token n key tok = (case tag_get n key of None \<Rightarrow> False | Some v \<Rightarrow> tok \<in> set (tokens v))"

text \<open>
  \<open>soup.select("ul.ul01 li.li01")\<close>: every \<open>li\<close> of class \<open>li01\<close> that lies below a \<open>ul\<close>
  of class \<open>ul01\<close>, in document order.  The flag says whether such a \<open>ul\<close> is among
  the ancestors.
\<close>

fun select_from :: "bool \<Rightarrow> node \<Rightarrow> node list" where
  "select_from inside (Text s) = []"
| "select_from inside (Tag name attrs cs) =
     (if inside \<and> name = u ''li'' \<and> has_token (Tag name attrs cs) (u ''class'') (u ''li01'')
      then [Tag name attrs cs] else []) @
     concat (map (select_from
       (inside \<or> (name = u ''ul'' \<and> has_token (Tag name attrs cs) (u ''class'') (u ''ul01'')))) cs)"

definition select_ul01_li01 :: "node list \<Rightarrow> node list" where
  "select_ul01_li01 soup = concat (map (select_from False) soup)"

text \<open>
  \<open>tag.string\<close>: the string of a tag whose only child is a string, or whose only
  child is a tag that has a string.
\<close>

fun tag_string :: "node \<Rightarrow> ustr option" where
  "tag_string (Text s) = Some s"
| "tag_string (Tag name attrs [c]) = tag_string c"
| "tag_string (Tag name attrs cs) = None"

text \<open>
  The filter \<open>string=lambda s: s and text in s\<close> applied to \<open>tag.string\<close>, which may be
  \<open>None\<close>.
\<close>

definition string_has :: "ustr \<Rightarrow> node \<Rightarrow> bool" where
  "string_has txt n =
     (case tag_string n of None \<Rightarrow> False | Some s \<Rightarrow> (if s = [] then False else contains s txt))"

text \<open>\<open>soup.find("a", ...)\<close>: the first anchor in document order that passes the filter.\<close>

definition find_a :: "(node \<Rightarrow> bool) \<Rightarrow> node list \<Rightarrow> node option" where
  "find_a flt soup = List.find (\<lambda>n. is_tag (u ''a'') n \<and> flt n) (descendants soup)"

section \<open>The library environment\<close>

text \<open>
  \<open>urlparse\<close> gives a six-field result or raises; the source reads \<open>scheme\<close>, \<open>netloc\<close>
  and \<open>path\<close>.
\<close>

record url =
  scheme :: ustr
  netloc :: ustr
  path :: ustr
  params :: ustr
  query :: ustr
  fragment :: ustr

text \<open>
  What the source takes from outside the repository: the character class \<open>\d\<close>,
  \<open>str.lower\<close>, \<open>urllib.parse.urlparse\<close> and \<open>urljoin\<close> (which may raise), the HTML
  parser, the order in which a \<open>set\<close> of strings is iterated (Python sets are
  modelled by duplicate-free lists), and the site: the outcome of the \<open>n\<close>-th
  \<open>session.get\<close> of a run, for the URL asked.
\<close>

record pyenv =
  re_digit :: "uchar \<Rightarrow> bool"
  str_lower :: "ustr \<Rightarrow> ustr"
  urlparse :: "ustr \<Rightarrow> exn + url"
  urljoin :: "ustr \<Rightarrow> ustr \<Rightarrow> exn + ustr"
  BeautifulSoup :: "ustr \<Rightarrow> node list"
  set_iter :: "ustr list \<Rightarrow> ustr list"
  session_get :: "nat \<Rightarrow> ustr \<Rightarrow> get_result"

text \<open>\<open>s.add(x)\<close> on a set kept as a duplicate-free list.\<close>

definition set_add :: "'a list \<Rightarrow> 'a \<Rightarrow> 'a list" where
  "set_add s x = (if x \<in> set s then s else s @ [x])"

section \<open>The link extractors of \<open>fetch_info_baitoru.py\<close>\<close>

definition BASE_DOMAIN :: ustr where
  "BASE_DOMAIN = u ''www.baitoru.com''"

subsection \<open>\<open>extract_cjlist_ids_from_html\<close>\<close>

text \<open>
  One anchor: \<open>CJLIST_RE.search(href)\<close>; when that fails, the search runs on
  \<open>urlparse(href).path\<close>, and an exception of \<open>urlparse\<close> skips the anchor.
\<close>

definition cjlist_id_of_href :: "pyenv \<Rightarrow> ustr \<Rightarrow> ustr option" where
  "cjlist_id_of_href env href =
     (case re_search (CJLIST_RE (re_digit env)) href of
        Some g \<Rightarrow> Some g
      | None \<Rightarrow>
          (case urlparse env href of
             Inl e \<Rightarrow> None
           | Inr parsed \<Rightarrow> re_search (CJLIST_RE (re_digit env)) (path parsed)))"

definition extract_cjlist_ids_from_html :: "pyenv \<Rightarrow> ustr \<Rightarrow> ustr list" where
  "extract_cjlist_ids_from_html env html =
     foldl (\<lambda>ids href. (case cjlist_id_of_href env href of
                           None \<Rightarrow> ids
                         | Some g \<Rightarrow> set_add ids g))
       [] (find_all_a_href (BeautifulSoup env html))"

subsection \<open>\<open>extract_job_links_from_listing_html\<close>\<close>

text \<open>
  The loop over the rows, with the set \<open>links\<close> built so far.  \<open>urljoin\<close> and
  \<open>urlparse\<close> are not guarded here: their exception leaves the function.
\<close>

fun job_links_loop :: "pyenv \<Rightarrow> ustr \<Rightarrow> node list \<Rightarrow> ustr list \<Rightarrow> exn + ustr list" where
  "job_links_loop env base_url [] links = Inr links"
| "job_links_loop env base_url (li # lis) links =
     (case tag_find_a_href li of
        None \<Rightarrow> job_links_loop env base_url lis links
      | Some href \<Rightarrow>
          (case urljoin env base_url href of
             Inl e \<Rightarrow> Inl e
           | Inr abs_url \<Rightarrow>
               (case urlparse env abs_url of
                  Inl e \<Rightarrow> Inl e
                | Inr parsed \<Rightarrow>
                    (if netloc parsed \<noteq> [] \<and> netloc parsed \<noteq> BASE_DOMAIN
                     then job_links_loop env base_url lis links
                     else if \<not> re_test JOB_DETAIL_RE (path parsed)
                     then job_links_loop env base_url lis links
                     else job_links_loop env base_url lis (set_add links abs_url)))))"

definition extract_job_links_from_listing_html :: "pyenv \<Rightarrow> ustr \<Rightarrow> ustr \<Rightarrow> exn + ustr list" where
  "extract_job_links_from_listing_html env html base_url =
     job_links_loop env base_url (select_ul01_li01 (BeautifulSoup env html)) []"

subsection \<open>\<open>extract_company_url_from_job_html\<close>\<close>

text \<open>The phrase of the company link (thirteen characters, U+3053 ... U+308B).\<close>

definition company_link_text :: ustr where
  "company_link_text =
     [0x3053, 0x306E, 0x4F1A, 0x793E, 0x306E, 0x60C5, 0x5831, 0x3092, 0x3082, 0x3063, 0x3068,
      0x898B, 0x308B]"

definition has_href :: "node \<Rightarrow> bool" where
  "has_href n = (case tag_get n (u ''href'') of None \<Rightarrow> False | Some v \<Rightarrow> True)"

definition extract_company_url_from_job_html :: "pyenv \<Rightarrow> ustr \<Rightarrow> ustr \<Rightarrow> exn + ustr option" where
  "extract_company_url_from_job_html env html job_url =
     (case find_a (\<lambda>n. string_has company_link_text n \<and> has_href n) (BeautifulSoup env html) of
        None \<Rightarrow> Inr None
      | Some a \<Rightarrow>
          (case urljoin env job_url (tag_get_default a (u ''href'') []) of
             Inl e \<Rightarrow> Inl e
           | Inr abs_url \<Rightarrow>
               (case urlparse env abs_url of
                  Inl e \<Rightarrow> Inl e
                | Inr parsed \<Rightarrow>
                    (case urljoin env (scheme parsed @ u ''://'' @ netloc parsed) (path parsed) of
                       Inl e \<Rightarrow> Inl e
                     | Inr c_url \<Rightarrow> Inr (Some c_url)))))"

subsection \<open>\<open>find_next_page_url\<close>\<close>

definition str_strip :: "ustr \<Rightarrow> ustr" where
  "str_strip s = rev (dropWhile py_isspace (rev (dropWhile py_isspace s)))"

definition is_valid_href :: "pyenv \<Rightarrow> ustr \<Rightarrow> bool" where
  "is_valid_href env href =
     (if href = [] then False
      else if startswith (str_lower env (str_strip href)) (u ''javascript:'') then False
      else True)"

text \<open>
  The five link texts: "next" in Japanese (U+6B21 U+3078), "next page"
  (U+6B21 U+306E U+30DA U+30FC U+30B8), U+6B21 followed by \<open>>\<close>, \<open>Next\<close>, and U+203A.
\<close>

definition candidates :: "ustr list" where
  "candidates =
     [[0x6B21, 0x3078], [0x6B21, 0x306E, 0x30DA, 0x30FC, 0x30B8], [0x6B21, 0x3E], u ''Next'',
      [0x203A]]"

text \<open>
  The loop over the candidates: for each, only the first anchor with that text is
  looked at; an invalid \<open>href\<close> moves on to the next candidate.
\<close>

fun next_by_text :: "pyenv \<Rightarrow> node list \<Rightarrow> ustr \<Rightarrow> ustr list \<Rightarrow> exn + ustr option" where
  "next_by_text env soup base_url [] = Inr None"
| "next_by_text env soup base_url (txt # txts) =
     (case find_a (string_has txt) soup of
        None \<Rightarrow> next_by_text env soup base_url txts
      | Some a \<Rightarrow>
          (if is_valid_href env (tag_get_default a (u ''href'') [])
           then (case urljoin env base_url (tag_get_default a (u ''href'') []) of
                   Inl e \<Rightarrow> Inl e
                 | Inr nxt \<Rightarrow> Inr (Some nxt))
           else next_by_text env soup base_url txts))"

definition find_next_page_url :: "pyenv \<Rightarrow> ustr \<Rightarrow> ustr \<Rightarrow> exn + ustr option" where
  "find_next_page_url env html base_url =
     (let soup = BeautifulSoup env html in
      (case find_a (\<lambda>n. has_token n (u ''rel'') (u ''next'')) soup of
         None \<Rightarrow> next_by_text env soup base_url candidates
       | Some a \<Rightarrow>
           (if is_valid_href env (tag_get_default a (u ''href'') [])
            then (case urljoin env base_url (tag_get_default a (u ''href'') []) of
                    Inl e \<Rightarrow> Inl e
                  | Inr nxt \<Rightarrow> Inr (Some nxt))
            else next_by_text env soup base_url candidates)))"

section \<open>\<open>crawl_baitoru_company_ids\<close>\<close>

text \<open>
  An entry of the registry \<open>company_infos\<close> is a dict with four string fields.  The
  registry is a dict keyed by the identifier; Python dicts keep the order of
  insertion, so it is an association list, updated in place or extended at the
  end.
\<close>

record info =
  company_id :: ustr
  company_url :: ustr
  source_job_url :: ustr
  source_listing_url :: ustr

type_synonym registry = "(ustr \<times> info) list"

text \<open>
  The state of a run: the registry, the two visited sets, and two fields that
  record the effects on the outside: \<open>clock\<close> counts the \<open>session.get\<close> calls made so
  far, \<open>fetched\<close> lists the calls of \<open>fetch_html\<close> in order, marked as listing or job.
  The politeness sleeps have a random length and no influence on any value; they
  are left out.
\<close>

datatype fetch_kind = Listing | Job

record crawl_state =
  company_infos :: registry
  visited_listing_urls :: "ustr list"
  visited_job_urls :: "ustr list"
  clock :: nat
  fetched :: "(fetch_kind \<times> ustr) list"

text \<open>\<open>fetch_html(url, session)\<close> inside a run.\<close>

definition fetch_in_run :: "pyenv \<Rightarrow> fetch_kind \<Rightarrow> ustr \<Rightarrow> crawl_state \<Rightarrow> ustr option \<times> crawl_state" where
  "fetch_in_run env kind url_str st =
     (let run = crawler_fetch_html (\<lambda>i. session_get env (clock st + i) url_str)
      in (result run,
          st\<lparr>clock := clock st + attempts run, fetched := fetched st @ [(kind, url_str)]\<rparr>))"

text \<open>
  Registration of the identifiers found on a page: \<open>new_ids\<close> are those not yet in
  the registry, and each gets a fresh entry with the canonical URL, the job URL
  (empty for a listing page) and the listing URL.
\<close>

definition canonical_url :: "ustr \<Rightarrow> ustr" where
  "canonical_url cid = u ''https://'' @ BASE_DOMAIN @ u ''/cjlist'' @ cid @ u ''/''"

definition new_ids_of :: "pyenv \<Rightarrow> ustr list \<Rightarrow> registry \<Rightarrow> ustr list" where
  "new_ids_of env ids infos = filter (\<lambda>cid. map_of infos cid = None) (set_iter env ids)"

definition register_ids :: "ustr list \<Rightarrow> ustr \<Rightarrow> ustr \<Rightarrow> registry \<Rightarrow> registry" where
  "register_ids new_ids job_url cur infos =
     foldl (\<lambda>acc cid. AList.update cid
              \<lparr>company_id = cid, company_url = canonical_url cid,
               source_job_url = job_url, source_listing_url = cur\<rparr> acc)
       infos new_ids"

text \<open>
  The merge of the company link of a job page: \<open>setdefault\<close>, then the URL is
  overwritten, then each provenance field is set only when it is empty.
\<close>

definition merge_company :: "ustr \<Rightarrow> ustr \<Rightarrow> ustr \<Rightarrow> ustr \<Rightarrow> registry \<Rightarrow> registry" where
  "merge_company cid c_url job_url cur infos =
     (let info0 = (case map_of infos cid of
                     Some i \<Rightarrow> i
                   | None \<Rightarrow> \<lparr>company_id = cid, company_url = c_url,
                               source_job_url = job_url, source_listing_url = cur\<rparr>);
          info1 = info0\<lparr>company_url := c_url\<rparr>;
          info2 = (if source_job_url info1 = [] then info1\<lparr>source_job_url := job_url\<rparr> else info1);
          info3 = (if source_listing_url info2 = [] then info2\<lparr>source_listing_url := cur\<rparr>
                   else info2)
      in AList.update cid info3 infos)"

text \<open>
  What one fetched job page does to the registry (lines 246 to 283); an exception
  of \<open>urljoin\<close> or \<open>urlparse\<close> leaves the run.
\<close>

definition job_page :: "pyenv \<Rightarrow> ustr \<Rightarrow> ustr \<Rightarrow> ustr \<Rightarrow> registry \<Rightarrow> exn option \<times> registry" where
  "job_page env cur job_url job_html infos =
     (let ids_on_job = extract_cjlist_ids_from_html env job_html;
          infos1 = register_ids (new_ids_of env ids_on_job infos) job_url cur infos
      in (case extract_company_url_from_job_html env job_html job_url of
            Inl e \<Rightarrow> (Some e, infos1)
          | Inr None \<Rightarrow> (None, infos1)
          | Inr (Some c_url) \<Rightarrow>
              (if c_url = [] then (None, infos1)
               else (case urlparse env c_url of
                       Inl e \<Rightarrow> (Some e, infos1)
                     | Inr parsed \<Rightarrow>
                         (case re_search (CJLIST_RE (re_digit env)) (path parsed) of
                            None \<Rightarrow> (None, infos1)
                          | Some cid \<Rightarrow> (None, merge_company cid c_url job_url cur infos1))))))"

text \<open>
  The loop over the job links of one listing page: it stops at the bound on the
  visited job pages, skips a visited URL, and goes on after a failed fetch.
\<close>

fun job_loop :: "pyenv \<Rightarrow> int \<Rightarrow> ustr \<Rightarrow> ustr list \<Rightarrow> crawl_state \<Rightarrow> exn option \<times> crawl_state" where
  "job_loop env max_job_pages cur [] st = (None, st)"
| "job_loop env max_job_pages cur (job_url # rest) st =
     (if max_job_pages \<le> int (length (visited_job_urls st)) then (None, st)
      else if job_url \<in> set (visited_job_urls st) then job_loop env max_job_pages cur rest st
      else
        (case fetch_in_run env Job job_url
                (st\<lparr>visited_job_urls := set_add (visited_job_urls st) job_url\<rparr>) of
           (None, st1) \<Rightarrow> job_loop env max_job_pages cur rest st1
         | (Some job_html, st1) \<Rightarrow>
             (if job_html = [] then job_loop env max_job_pages cur rest st1
              else (case job_page env cur job_url job_html (company_infos st1) of
                      (Some e, infos) \<Rightarrow> (Some e, st1\<lparr>company_infos := infos\<rparr>)
                    | (None, infos) \<Rightarrow>
                        job_loop env max_job_pages cur rest (st1\<lparr>company_infos := infos\<rparr>)))))"

text \<open>
  Why the outer loop ended, and one turn of its body after the guard and the
  visited test (lines 204 to 291).
\<close>

datatype stop = NoNextPage | AlreadyVisited | ListingFetchFailed | PageBoundReached | Raised exn

datatype page_outcome = Stopped stop | NextPage "ustr option"

definition listing_page :: "pyenv \<Rightarrow> int \<Rightarrow> ustr \<Rightarrow> crawl_state \<Rightarrow> page_outcome \<times> crawl_state" where
  "listing_page env max_job_pages cur st =
     (case fetch_in_run env Listing cur
             (st\<lparr>visited_listing_urls := set_add (visited_listing_urls st) cur\<rparr>) of
        (None, st1) \<Rightarrow> (Stopped ListingFetchFailed, st1)
      | (Some html, st1) \<Rightarrow>
          (if html = [] then (Stopped ListingFetchFailed, st1)
           else
             (let ids_on_listing = extract_cjlist_ids_from_html env html;
                  st2 = st1\<lparr>company_infos :=
                          register_ids (new_ids_of env ids_on_listing (company_infos st1)) [] cur
                            (company_infos st1)\<rparr>
              in (case extract_job_links_from_listing_html env html cur of
                    Inl e \<Rightarrow> (Stopped (Raised e), st2)
                  | Inr job_links \<Rightarrow>
                      (case find_next_page_url env html cur of
                         Inl e \<Rightarrow> (Stopped (Raised e), st2)
                       | Inr next_url \<Rightarrow>
                           (case job_loop env max_job_pages cur (set_iter env job_links) st2 of
                              (Some e, st3) \<Rightarrow> (Stopped (Raised e), st3)
                            | (None, st3) \<Rightarrow> (NextPage next_url, st3)))))))"

text \<open>
  \<open>while listing_url and listing_count < max_listing_pages\<close>, with the test for a
  visited URL at the head of the body.
\<close>

function crawl_loop ::
  "pyenv \<Rightarrow> int \<Rightarrow> int \<Rightarrow> ustr option \<Rightarrow> nat \<Rightarrow> crawl_state \<Rightarrow> stop \<times> crawl_state" where
  "crawl_loop env max_listing_pages max_job_pages listing_url listing_count st =
     (case listing_url of
        None \<Rightarrow> (NoNextPage, st)
      | Some cur \<Rightarrow>
          (if cur = [] then (NoNextPage, st)
           else if max_listing_pages \<le> int listing_count then (PageBoundReached, st)
           else if cur \<in> set (visited_listing_urls st) then (AlreadyVisited, st)
           else (case listing_page env max_job_pages cur st of
                   (Stopped why, st1) \<Rightarrow> (why, st1)
                 | (NextPage next_url, st1) \<Rightarrow>
                     crawl_loop env max_listing_pages max_job_pages next_url
                       (Suc listing_count) st1)))"
  by pat_completeness auto
termination
  by (relation "measure (\<lambda>(env, max_listing_pages, max_job_pages, listing_url, listing_count, st).
        nat (max_listing_pages - int listing_count))") auto

definition initial_state :: crawl_state where
  "initial_state =
     \<lparr>company_infos = [], visited_listing_urls = [], visited_job_urls = [], clock = 0,
      fetched = []\<rparr>"

definition crawl_run :: "pyenv \<Rightarrow> ustr \<Rightarrow> int \<Rightarrow> int \<Rightarrow> stop \<times> crawl_state" where
  "crawl_run env start_listing_url max_listing_pages max_job_pages =
     crawl_loop env max_listing_pages max_job_pages (Some start_listing_url) 0 initial_state"

text \<open>The value of the call: the entries of the registry, or the exception.\<close>

definition crawl_baitoru_company_ids :: "pyenv \<Rightarrow> ustr \<Rightarrow> int \<Rightarrow> int \<Rightarrow> exn + info list" where
  "crawl_baitoru_company_ids env start_listing_url max_listing_pages max_job_pages =
     (case crawl_run env start_listing_url max_listing_pages max_job_pages of
        (Raised e, st) \<Rightarrow> Inl e
      | (why, st) \<Rightarrow> Inr (map snd (company_infos st)))"

section \<open>Notions used to state the properties\<close>

text \<open>A non-empty string of characters of the class \<open>\d\<close>.\<close>

definition digit_string :: "pyenv \<Rightarrow> ustr \<Rightarrow> bool" where
  "digit_string env s = (s \<noteq> [] \<and> list_all (re_digit env) s)"



text \<open>The origin of the site, as an absolute link to it begins.\<close>

definition site_origin :: ustr where
  "site_origin = u ''https://'' @ BASE_DOMAIN"

text \<open>The path that \<open>urlparse\<close> gives for a string, when it gives one.\<close>

definition url_path :: "pyenv \<Rightarrow> ustr \<Rightarrow> ustr option" where
  "url_path env s = (case urlparse env s of Inl e \<Rightarrow> None | Inr parsed \<Rightarrow> Some (path parsed))"

text \<open>
  The registry \<open>new\<close> keeps the provenance of \<open>old\<close>: every entry of \<open>old\<close> is still in
  \<open>new\<close> under its identifier, and a job URL or listing URL that was not empty is
  unchanged.
\<close>

definition keeps_provenance :: "registry \<Rightarrow> registry \<Rightarrow> bool" where
  "keeps_provenance old new =
     (\<forall>cid i. map_of old cid = Some i \<longrightarrow>
        (\<exists>j. map_of new cid = Some j \<and> company_id j = company_id i \<and>
             (source_job_url i \<noteq> [] \<longrightarrow> source_job_url j = source_job_url i) \<and>
             (source_listing_url i \<noteq> [] \<longrightarrow> source_listing_url j = source_listing_url i)))"

text \<open>Every key of the registry is a digit string and is the \<open>company_id\<close> of its entry.\<close>

definition registry_ok :: "pyenv \<Rightarrow> registry \<Rightarrow> bool" where
  "registry_ok env infos = list_all (\<lambda>(k, i). digit_string env k \<and> company_id i = k) infos"


section \<open>A concrete environment\<close>

text \<open>
  For the examples, \<open>urllib.parse\<close> is written out after the source of CPython 3.11
  (\<open>urlsplit\<close>, \<open>urlparse\<close>, \<open>urlunparse\<close>, \<open>urljoin\<close> on \<open>str\<close> arguments).  Two checks
  of \<open>urlsplit\<close> are not reproduced: the validation of a bracketed host as an IP
  address, and the NFKC check of a non-ASCII netloc.  The functions below agree
  with the library on ASCII URLs whose netloc has no matched pair of brackets.
\<close>

definition colon :: uchar where
  "colon = 0x3A"

definition semicolon :: uchar where
  "semicolon = 0x3B"

definition qmark :: uchar where
  "qmark = 0x3F"

definition hash :: uchar where
  "hash = 0x23"

definition lbracket :: uchar where
  "lbracket = 0x5B"

definition rbracket :: uchar where
  "rbracket = 0x5D"

definition uses_relative :: "ustr list" where
  "uses_relative =
     [[], u ''ftp'', u ''http'', u ''gopher'', u ''nntp'', u ''imap'', u ''wais'', u ''file'',
      u ''https'', u ''shttp'', u ''mms'', u ''prospero'', u ''rtsp'', u ''rtsps'', u ''rtspu'',
      u ''sftp'', u ''svn'', u ''svn+ssh'', u ''ws'', u ''wss'']"

definition uses_netloc :: "ustr list" where
  "uses_netloc =
     [[], u ''ftp'', u ''http'', u ''gopher'', u ''nntp'', u ''telnet'', u ''imap'', u ''wais'',
      u ''file'', u ''mms'', u ''https'', u ''shttp'', u ''snews'', u ''prospero'', u ''rtsp'',
      u ''rtsps'', u ''rtspu'', u ''rsync'', u ''svn'', u ''svn+ssh'', u ''sftp'', u ''nfs'',
      u ''git'', u ''git+ssh'', u ''ws'', u ''wss'']"

definition uses_params :: "ustr list" where
  "uses_params =
     [[], u ''ftp'', u ''hdl'', u ''prospero'', u ''http'', u ''imap'', u ''https'', u ''shttp'',
      u ''rtsp'', u ''rtsps'', u ''rtspu'', u ''sip'', u ''sips'', u ''mms'', u ''sftp'', u ''tel'']"

text \<open>\<open>lstrip\<close> and \<open>strip\<close> of the C0 control characters and the space; removal of tab, CR, LF.\<close>

definition lstrip_c0 :: "ustr \<Rightarrow> ustr" where
  "lstrip_c0 s = dropWhile (\<lambda>c. c \<le> 0x20) s"

definition strip_c0 :: "ustr \<Rightarrow> ustr" where
  "strip_c0 s = rev (lstrip_c0 (rev (lstrip_c0 s)))"

definition remove_unsafe :: "ustr \<Rightarrow> ustr" where
  "remove_unsafe s = filter (\<lambda>c. c \<noteq> 0x9 \<and> c \<noteq> 0xA \<and> c \<noteq> 0xD) s"

definition ascii_alpha :: "uchar \<Rightarrow> bool" where
  "ascii_alpha c = ((0x41 \<le> c \<and> c \<le> 0x5A) \<or> (0x61 \<le> c \<and> c \<le> 0x7A))"

definition scheme_char :: "uchar \<Rightarrow> bool" where
  "scheme_char c = (ascii_alpha c \<or> ascii_digit c \<or> c = 0x2B \<or> c = 0x2D \<or> c = 0x2E)"

definition ascii_lower_char :: "uchar \<Rightarrow> uchar" where
  "ascii_lower_char c = (if 0x41 \<le> c \<and> c \<le> 0x5A then c + 32 else c)"

text \<open>\<open>s.split(c, 1)\<close> when \<open>c\<close> occurs, and \<open>(s, "")\<close> otherwise; \<open>s.split(c)\<close>; \<open>c.join(parts)\<close>.\<close>

definition split_once :: "uchar \<Rightarrow> ustr \<Rightarrow> ustr \<times> ustr" where
  "split_once c s = (takeWhile (\<lambda>x. x \<noteq> c) s, drop 1 (dropWhile (\<lambda>x. x \<noteq> c) s))"

fun split_on_from :: "uchar \<Rightarrow> ustr \<Rightarrow> ustr \<Rightarrow> ustr list" where
  "split_on_from c cur [] = [cur]"
| "split_on_from c cur (x # xs) =
     (if x = c then cur # split_on_from c [] xs else split_on_from c (cur @ [x]) xs)"

definition split_on :: "uchar \<Rightarrow> ustr \<Rightarrow> ustr list" where
  "split_on c s = split_on_from c [] s"

fun join_with :: "uchar \<Rightarrow> ustr list \<Rightarrow> ustr" where
  "join_with c [] = []"
| "join_with c [p] = p"
| "join_with c (p # q # ps) = p @ c # join_with c (q # ps)"

text \<open>The scheme of \<open>urlsplit\<close>: the text before the first colon, when it is a scheme.\<close>

definition split_scheme :: "ustr \<Rightarrow> ustr \<Rightarrow> ustr \<times> ustr" where
  "split_scheme dflt s =
     (let pre = takeWhile (\<lambda>c. c \<noteq> colon) s
      in if colon \<in> set s \<and> list_all scheme_char pre \<and>
            (case pre of [] \<Rightarrow> False | c # cs \<Rightarrow> ascii_alpha c)
         then (map ascii_lower_char pre, drop (Suc (length pre)) s)
         else (dflt, s))"

definition is_delim :: "uchar \<Rightarrow> bool" where
  "is_delim c = (c = slash \<or> c = qmark \<or> c = hash)"

definition py_urlsplit :: "ustr \<Rightarrow> ustr \<Rightarrow> exn + (ustr \<times> ustr \<times> ustr \<times> ustr \<times> ustr)" where
  "py_urlsplit url0 scheme0 =
     (let (sch, s1) = split_scheme (remove_unsafe (strip_c0 scheme0))
                        (remove_unsafe (lstrip_c0 url0));
          (nl, s2) = (if take 2 s1 = [slash, slash]
                      then (takeWhile (\<lambda>c. \<not> is_delim c) (drop 2 s1),
                            dropWhile (\<lambda>c. \<not> is_delim c) (drop 2 s1))
                      else ([], s1))
      in if (lbracket \<in> set nl \<and> rbracket \<notin> set nl) \<or> (rbracket \<in> set nl \<and> lbracket \<notin> set nl)
         then Inl ValueError
         else (let (s3, frag) = split_once hash s2;
                   (s4, qry) = split_once qmark s3
               in Inr (sch, nl, s4, qry, frag)))"

definition splitparams :: "ustr \<Rightarrow> ustr \<times> ustr" where
  "splitparams s =
     (if slash \<in> set s
      then (let b = rev (takeWhile (\<lambda>c. c \<noteq> slash) (rev s));
                a = take (length s - length b) s
            in if semicolon \<in> set b then (a @ fst (split_once semicolon b), snd (split_once semicolon b))
               else (s, []))
      else split_once semicolon s)"

definition py_urlparse :: "ustr \<Rightarrow> ustr \<Rightarrow> exn + url" where
  "py_urlparse url0 scheme0 =
     (case py_urlsplit url0 scheme0 of
        Inl e \<Rightarrow> Inl e
      | Inr (sch, nl, p, qry, frag) \<Rightarrow>
          (let (p1, prm) = (if sch \<in> set uses_params \<and> semicolon \<in> set p then splitparams p
                            else (p, []))
           in Inr \<lparr>scheme = sch, netloc = nl, path = p1, params = prm, query = qry,
                   fragment = frag\<rparr>))"

definition py_urlunsplit :: "ustr \<Rightarrow> ustr \<Rightarrow> ustr \<Rightarrow> ustr \<Rightarrow> ustr \<Rightarrow> ustr" where
  "py_urlunsplit sch nl p qry frag =
     (let p1 = (if nl \<noteq> [] \<or> (sch \<noteq> [] \<and> sch \<in> set uses_netloc) \<or> take 2 p = [slash, slash]
                then [slash, slash] @ nl @ (if p \<noteq> [] \<and> take 1 p \<noteq> [slash] then slash # p else p)
                else p);
          p2 = (if sch \<noteq> [] then sch @ colon # p1 else p1);
          p3 = (if qry \<noteq> [] then p2 @ qmark # qry else p2)
      in if frag \<noteq> [] then p3 @ hash # frag else p3)"

definition py_urlunparse :: "url \<Rightarrow> ustr" where
  "py_urlunparse r =
     py_urlunsplit (scheme r) (netloc r)
       (if params r \<noteq> [] then path r @ semicolon # params r else path r) (query r) (fragment r)"

text \<open>The segments of \<open>urljoin\<close>: empty middle segments removed, dots resolved.\<close>

definition squeeze :: "ustr list \<Rightarrow> ustr list" where
  "squeeze segs =
     (case segs of
        [] \<Rightarrow> []
      | [x] \<Rightarrow> [x]
      | x # y # ys \<Rightarrow> x # filter (\<lambda>s. s \<noteq> []) (butlast (y # ys)) @ [last (y # ys)])"

fun resolve :: "ustr list \<Rightarrow> ustr list \<Rightarrow> ustr list" where
  "resolve [] acc = acc"
| "resolve (seg # segs) acc =
     (if seg = u ''..'' then resolve segs (butlast acc)
      else if seg = u ''.'' then resolve segs acc
      else resolve segs (acc @ [seg]))"

definition py_urljoin :: "ustr \<Rightarrow> ustr \<Rightarrow> exn + ustr" where
  "py_urljoin base url0 =
     (if base = [] then Inr url0
      else if url0 = [] then Inr base
      else (case py_urlparse base [] of
              Inl e \<Rightarrow> Inl e
            | Inr b \<Rightarrow>
                (case py_urlparse url0 (scheme b) of
                   Inl e \<Rightarrow> Inl e
                 | Inr r \<Rightarrow>
                     (if scheme r \<noteq> scheme b \<or> scheme r \<notin> set uses_relative then Inr url0
                      else if scheme r \<in> set uses_netloc \<and> netloc r \<noteq> [] then Inr (py_urlunparse r)
                      else
                        (let nl = (if scheme r \<in> set uses_netloc then netloc b else netloc r)
                         in if path r = [] \<and> params r = []
                            then Inr (py_urlunparse
                                   (r\<lparr>netloc := nl, path := path b, params := params b,
                                      query := (if query r = [] then query b else query r)\<rparr>))
                            else
                              (let base_parts = split_on slash (path b);
                                   base_dir = (if last base_parts \<noteq> [] then butlast base_parts
                                               else base_parts);
                                   segments = (if take 1 (path r) = [slash]
                                               then split_on slash (path r)
                                               else squeeze (base_dir @ split_on slash (path r)));
                                   resolved = resolve segments [];
                                   resolved1 = (if last segments = u ''..'' \<or> last segments = u ''.''
                                                then resolved @ [[]] else resolved);
                                   joined = join_with slash resolved1
                               in Inr (py_urlunparse
                                    (r\<lparr>netloc := nl,
                                       path := (if joined = [] then [slash] else joined)\<rparr>))))))))"

text \<open>
  The environment of the examples: \<open>\d\<close> and \<open>str.lower\<close> restricted to ASCII, the
  library functions above, sets iterated in the order of insertion, and a parser
  and a site given by the example.
\<close>

definition example_env :: "(ustr \<Rightarrow> node list) \<Rightarrow> (nat \<Rightarrow> ustr \<Rightarrow> get_result) \<Rightarrow> pyenv" where
  "example_env parse site =
     \<lparr>re_digit = ascii_digit, str_lower = map ascii_lower_char,
      urlparse = (\<lambda>s. py_urlparse s []), urljoin = py_urljoin,
      BeautifulSoup = parse, set_iter = (\<lambda>xs. xs), session_get = site\<rparr>"

section \<open>\<open>save_to_csv\<close>\<close>

text \<open>
  The fifteen column names of \<open>FIELDS\<close>, as code points, in the order of the source
  (fetched at, fetched URL, name, phone, prefecture, address, industry, corporate
  number, representative, capital, sales, employees, founded, business, HP).
\<close>

definition FIELDS :: "ustr list" where
  "FIELDS =
     [[0x53D6, 0x5F97, 0x65E5, 0x6642],
      [0x53D6, 0x5F97, 0x55, 0x52, 0x4C],
      [0x540D, 0x79F0],
      [0x96FB, 0x8A71, 0x756A, 0x53F7],
      [0x90FD, 0x9053, 0x5E9C, 0x770C],
      [0x4F4F, 0x6240],
      [0x696D, 0x7A2E],
      [0x6CD5, 0x4EBA, 0x756A, 0x53F7],
      [0x4EE3, 0x8868, 0x8005],
      [0x8CC7, 0x672C, 0x91D1],
      [0x58F2, 0x4E0A],
      [0x5F93, 0x696D, 0x54E1, 0x6570],
      [0x8A2D, 0x7ACB, 0x65E5],
      [0x4E8B, 0x696D, 0x5185, 0x5BB9],
      [0x48, 0x50]]"

text \<open>
  A row is a \<open>dict\<close> from field names to \<open>str\<close> or \<open>None\<close>: \<open>row k = None\<close> when the key
  is missing, \<open>Some None\<close> when the key holds \<open>None\<close>.
\<close>

type_synonym row = "ustr \<Rightarrow> ustr option option"

definition dict_get :: "row \<Rightarrow> ustr \<Rightarrow> ustr option" where
  "dict_get row k = (case row k of None \<Rightarrow> None | Some v \<Rightarrow> v)"

definition dict_get_default :: "row \<Rightarrow> ustr \<Rightarrow> ustr option \<Rightarrow> ustr option" where
  "dict_get_default row k dflt = (case row k of None \<Rightarrow> dflt | Some v \<Rightarrow> v)"

text \<open>
  The dict comprehension \<open>safe_row\<close>, as the list of its items in the order of
  \<open>FIELDS\<close>.
\<close>

definition safe_row :: "row \<Rightarrow> (ustr \<times> ustr option) list" where
  "safe_row row =
     map (\<lambda>field.
            (field,
             (if dict_get row field = None then Some []
              else dict_get_default row field (Some []))))
       FIELDS"

text \<open>
  The \<open>csv\<close> module and the file are outside the repository.  A written file is
  modelled by the table of cells handed to the writer: \<open>writeheader\<close> hands over
  \<open>FIELDS\<close>, \<open>writerow\<close> hands over the values of the dict in the order of the field
  names, a missing key as the rest value \<open>""\<close> and \<open>None\<close> as \<open>""\<close>.  The keys of
  \<open>safe_row\<close> are the field names, so the writer's check for extra keys never fires.
  Quoting and the \<open>utf-8-sig\<close> encoding are the library's.
\<close>

definition writerow :: "(ustr \<times> ustr option) list \<Rightarrow> ustr list" where
  "writerow rowdict =
     map (\<lambda>key. (case map_of rowdict key of
                    None \<Rightarrow> []
                  | Some None \<Rightarrow> []
                  | Some (Some s) \<Rightarrow> s))
       FIELDS"

type_synonym files = "ustr \<Rightarrow> ustr list list option"

datatype csv_log = WarnRowsEmpty

definition save_to_csv :: "row list \<Rightarrow> ustr \<Rightarrow> files \<Rightarrow> files \<times> csv_log list" where
  "save_to_csv rows filepath fs =
     (if rows = [] then (fs, [WarnRowsEmpty])
      else (fs(filepath \<mapsto> FIELDS # map (\<lambda>row. writerow (safe_row row)) rows), []))"

text \<open>
  Reading the table back as \<open>csv.DictReader\<close> does: the first line names the
  columns, every other line becomes a dict from column name to cell.
\<close>

definition reparse :: "ustr list list \<Rightarrow> (ustr \<Rightarrow> ustr option) list" where
  "reparse table =
     (case table of
        [] \<Rightarrow> []
      | header # data \<Rightarrow> map (\<lambda>cells. map_of (zip header cells)) data)"

text \<open>
  Two example rows: one with a name, a \<open>None\<close> phone and nothing else, one with only
  an address.
\<close>

definition example_row1 :: row where
  "example_row1 = (\<lambda>k. None)(FIELDS ! 2 \<mapsto> Some (u ''ACME''), FIELDS ! 3 \<mapsto> None)"

definition example_row2 :: row where
  "example_row2 = (\<lambda>k. None)(FIELDS ! 5 \<mapsto> Some (u ''Chiba''))"

section \<open>An example site\<close>

text \<open>
  A listing page with two employer links (one site-relative, one absolute) and one
  row whose anchor leads to a job page; the job page has the company link, which
  points to a third employer.  There is no link to a next page.  The parser of
  the example knows the two pages by their text; the site answers 200 for the two
  URLs and 404 for every other.
\<close>

definition listing_url0 :: ustr where
  "listing_url0 = u ''https://www.baitoru.com/kanto/jlist/''"

definition job_url0 :: ustr where
  "job_url0 = u ''https://www.baitoru.com/kanto/job12/''"

definition listing_dom :: "node list" where
  "listing_dom =
     [Tag (u ''body'') []
        [Tag (u ''a'') [(u ''href'', u ''/cjlist101/'')] [Text (u ''A'')],
         Tag (u ''a'') [(u ''href'', u ''https://www.baitoru.com/cjlist102/'')] [Text (u ''B'')],
         Tag (u ''ul'') [(u ''class'', u ''ul01'')]
           [Tag (u ''li'') [(u ''class'', u ''li01 first'')]
              [Tag (u ''h3'') [] [Tag (u ''a'') [(u ''href'', u ''/kanto/job12/'')] [Text (u ''job'')]]]]]]"

definition job_dom :: "node list" where
  "job_dom =
     [Tag (u ''body'') []
        [Tag (u ''a'') [(u ''href'', u ''/cjlist103/#comp'')] [Text company_link_text]]]"

definition example_parse :: "ustr \<Rightarrow> node list" where
  "example_parse html =
     (if html = u ''LISTING'' then listing_dom else if html = u ''JOB'' then job_dom else [])"

definition page :: "ustr \<Rightarrow> get_result" where
  "page body = Responds \<lparr>status_code = 200, resp_text = body, apparent_text = body\<rparr>"

definition example_site :: "nat \<Rightarrow> ustr \<Rightarrow> get_result" where
  "example_site n url_str =
     (if url_str = listing_url0 then page (u ''LISTING'')
      else if url_str = job_url0 then page (u ''JOB'')
      else Responds \<lparr>status_code = 404, resp_text = [], apparent_text = []\<rparr>)"

definition env0 :: pyenv where
  "env0 = example_env example_parse example_site"

text \<open>A page with one listing row whose anchor has a scheme of its own and no host.\<close>

definition odd_dom :: "node list" where
  "odd_dom =
     [Tag (u ''ul'') [(u ''class'', u ''ul01'')]
        [Tag (u ''li'') [(u ''class'', u ''li01'')]
           [Tag (u ''a'') [(u ''href'', u ''foo:/job1'')] [Text (u ''x'')]]]]"

definition env_odd :: pyenv where
  "env_odd = example_env (\<lambda>html. odd_dom) example_site"

text \<open>
  Two pages that differ in one anchor: the employer link with a tab inside the
  identifier, which the direct search misses, site-relative and absolute.
\<close>

definition rel_href :: ustr where
  "rel_href = [0x2F, 0x63, 0x6A, 0x6C, 0x69, 0x73, 0x74, 0x31, 0x32, 0x9, 0x33, 0x2F]"

definition rel_abs_parse :: "ustr \<Rightarrow> node list" where
  "rel_abs_parse html =
     (if html = u ''REL''
      then [Tag (u ''a'') [(u ''href'', u ''/cjlist7/'')] [], Tag (u ''a'') [(u ''href'', rel_href)] []]
      else [Tag (u ''a'') [(u ''href'', u ''/cjlist7/'')] [],
            Tag (u ''a'') [(u ''href'', site_origin @ rel_href)] []])"

definition env_rel_abs :: pyenv where
  "env_rel_abs = example_env rel_abs_parse example_site"

text \<open>A registry with one entry that has no job URL yet.\<close>

definition registry0 :: registry where
  "registry0 =
     [(u ''101'', \<lparr>company_id = u ''101'', company_url = canonical_url (u ''101''),
                   source_job_url = [], source_listing_url = listing_url0\<rparr>)]"

text \<open>Two observations of employer 101 on job pages of a second listing page.\<close>

definition listing_url1 :: ustr where
  "listing_url1 = u ''https://www.baitoru.com/kanto/jlist/page2/''"

definition job_url1 :: ustr where
  "job_url1 = u ''https://www.baitoru.com/kanto/job13/''"

definition seen_url1 :: ustr where
  "seen_url1 = u ''https://www.baitoru.com/kanto/cjlist101/''"

definition seen_url2 :: ustr where
  "seen_url2 = u ''https://www.baitoru.com/cjlist101/''"

text \<open>
  The example site with another job page: its company link points to employer 101,
  which the listing page has registered already, under a path with a region in
  front, so that the observed URL is not the canonical one.
\<close>

definition job_dom1 :: "node list" where
  "job_dom1 =
     [Tag (u ''body'') []
        [Tag (u ''a'') [(u ''href'', u ''/kanto/cjlist101/#comp'')] [Text company_link_text]]]"

definition env1 :: pyenv where
  "env1 = example_env
     (\<lambda>html. if html = u ''LISTING'' then listing_dom else if html = u ''JOB'' then job_dom1 else [])
     example_site"






section \<open>Properties of the two fetchers\<close>

lemma attempt_fails_iff: "attempt_fails g \<longleftrightarrow> (\<exists>e. scraper_try g = Inl e)"
  by (cases g) (auto simp: attempt_fails_def scraper_try_def raise_for_status_def)

lemma scraper_try_ok:
  "\<not> http_error_status resp \<Longrightarrow> scraper_try (Responds resp) = Inr (resp_text resp)"
  by (simp add: scraper_try_def raise_for_status_def)

lemma nat_MAX_RETRIES: "nat MAX_RETRIES = Suc (Suc (Suc 0))"
  by (simp add: MAX_RETRIES_def eval_nat_numeral)

lemma backoff_sum:
  "sum_list (map backoff [0..<k]) = BASE_BACKOFF_SEC * (\<Sum>j = 1..k. j)"
proof (induction k)
  case 0
  then show ?case by simp
next
  case (Suc k)
  then show ?case by (simp add: backoff_def algebra_simps)
qed

text \<open>
  After \<open>k\<close> failed attempts and a good response, with \<open>k\<close> below the ceiling, the
  profile fetch returns the text; it has slept after each failure.
\<close>

lemma scraper_loop_success:
  "\<forall>j<k. attempt_fails (get (i + j)) \<Longrightarrow>
   scraper_try (get (i + k)) = Inr txt \<Longrightarrow> k < n \<Longrightarrow> int (i + k) < mr \<Longrightarrow>
   result (scraper_fetch_loop get mr n i lst sl pr) = Inr txt \<and>
   attempts (scraper_fetch_loop get mr n i lst sl pr) = Suc (i + k) \<and>
   slept (scraper_fetch_loop get mr n i lst sl pr) = sl @ map backoff [i..<i + k]"
proof (induction k arbitrary: n i lst sl pr)
  case 0
  then obtain m where n: "n = Suc m" by (cases n) auto
  from 0 show ?case by (simp add: n)
next
  case (Suc k)
  then obtain m where n: "n = Suc m" by (cases n) auto
  from Suc.prems(1) have "attempt_fails (get i)" by force
  then obtain e where e: "scraper_try (get i) = Inl e" unfolding attempt_fails_iff by blast
  have lt: "int i < mr - 1" using Suc.prems(4) by simp
  have step: "scraper_fetch_loop get mr n i lst sl pr =
      scraper_fetch_loop get mr m (Suc i) (Some e) (sl @ [backoff i]) (pr @ [WarnRetry e (i + 1)])"
    using e lt by (simp add: n)
  have a: "\<forall>j<k. attempt_fails (get (Suc i + j))"
    using Suc.prems(1) by (metis Suc_less_eq add_Suc_right add_Suc)
  have b: "scraper_try (get (Suc i + k)) = Inr txt" using Suc.prems(2) by simp
  have c: "k < m" using Suc.prems(3) n by simp
  have d: "int (Suc i + k) < mr" using Suc.prems(4) by simp
  have up: "[i..<i + Suc k] = i # [Suc i..<Suc i + k]"
    by (simp add: upt_conv_Cons)
  have ih: "result (scraper_fetch_loop get mr m (Suc i) (Some e)
        (sl @ [backoff i]) (pr @ [WarnRetry e (i + 1)])) = Inr txt \<and>
     attempts (scraper_fetch_loop get mr m (Suc i) (Some e)
        (sl @ [backoff i]) (pr @ [WarnRetry e (i + 1)])) = Suc (Suc i + k) \<and>
     slept (scraper_fetch_loop get mr m (Suc i) (Some e)
        (sl @ [backoff i]) (pr @ [WarnRetry e (i + 1)])) =
       (sl @ [backoff i]) @ map backoff [Suc i..<Suc i + k]"
    by (rule Suc.IH[OF a b c d])
  show ?case
    unfolding step up using ih by simp
qed

text \<open>
  After \<open>k\<close> transport failures and any response, the listing fetch stops at that
  response: the text for status 200, \<open>None\<close> and a status warning otherwise.
\<close>

lemma crawler_loop_response:
  "\<forall>j<k. \<exists>e. get (i + j) = Raises e \<Longrightarrow> get (i + k) = Responds resp \<Longrightarrow> k < n \<Longrightarrow>
   result (crawler_fetch_loop get n i lst sl pr) =
     (if status_code resp = 200 then Some (apparent_text resp) else None) \<and>
   attempts (crawler_fetch_loop get n i lst sl pr) = Suc (i + k) \<and>
   slept (crawler_fetch_loop get n i lst sl pr) = sl @ map backoff [i..<i + k] \<and>
   (status_code resp \<noteq> 200 \<longrightarrow>
      last (printed (crawler_fetch_loop get n i lst sl pr)) = WarnStatus (status_code resp))"
proof (induction k arbitrary: n i lst sl pr)
  case 0
  then obtain m where n: "n = Suc m" by (cases n) auto
  from 0 show ?case by (simp add: n)
next
  case (Suc k)
  then obtain m where n: "n = Suc m" by (cases n) auto
  from Suc.prems(1) obtain e where e: "get i = Raises e" by force
  have step: "crawler_fetch_loop get n i lst sl pr =
      crawler_fetch_loop get m (Suc i) (Some (Transport e))
        (sl @ [backoff i]) (pr @ [WarnError (Transport e) (i + 1)])"
    using e by (simp add: n)
  have a: "\<forall>j<k. \<exists>e. get (Suc i + j) = Raises e"
    using Suc.prems(1) by (metis Suc_less_eq add_Suc_right add_Suc)
  have b: "get (Suc i + k) = Responds resp" using Suc.prems(2) by simp
  have c: "k < m" using Suc.prems(3) n by simp
  have up: "[i..<i + Suc k] = i # [Suc i..<Suc i + k]"
    by (simp add: upt_conv_Cons)
  have ih: "result (crawler_fetch_loop get m (Suc i) (Some (Transport e))
        (sl @ [backoff i]) (pr @ [WarnError (Transport e) (i + 1)])) =
       (if status_code resp = 200 then Some (apparent_text resp) else None) \<and>
     attempts (crawler_fetch_loop get m (Suc i) (Some (Transport e))
        (sl @ [backoff i]) (pr @ [WarnError (Transport e) (i + 1)])) = Suc (Suc i + k) \<and>
     slept (crawler_fetch_loop get m (Suc i) (Some (Transport e))
        (sl @ [backoff i]) (pr @ [WarnError (Transport e) (i + 1)])) =
       (sl @ [backoff i]) @ map backoff [Suc i..<Suc i + k] \<and>
     (status_code resp \<noteq> 200 \<longrightarrow>
        last (printed (crawler_fetch_loop get m (Suc i) (Some (Transport e))
        (sl @ [backoff i]) (pr @ [WarnError (Transport e) (i + 1)]))) = WarnStatus (status_code resp))"
    by (rule Suc.IH[OF a b c])
  show ?case
    unfolding step up using ih by simp
qed

lemma scraper_loop_attempts:
  "attempts (scraper_fetch_loop get mr n i lst sl pr) \<le> i + n"
proof (induction n arbitrary: i lst sl pr)
  case 0
  show ?case by simp
next
  case (Suc n)
  show ?case
  proof (cases "scraper_try (get i)")
    case (Inl e)
    have "attempts (scraper_fetch_loop get mr n (Suc i) (Some e) sl' pr') \<le> Suc i + n" for sl' pr'
      by (rule Suc.IH)
    then show ?thesis using Inl by simp
  next
    case (Inr t)
    then show ?thesis by simp
  qed
qed

lemma crawler_loop_attempts:
  "attempts (crawler_fetch_loop get n i lst sl pr) \<le> i + n"
proof (induction n arbitrary: i lst sl pr)
  case 0
  show ?case by simp
next
  case (Suc n)
  show ?case
  proof (cases "get i")
    case (Raises e)
    have "attempts (crawler_fetch_loop get n (Suc i) lst' sl' pr') \<le> Suc i + n" for lst' sl' pr'
      by (rule Suc.IH)
    then show ?thesis using Raises by simp
  next
    case (Responds r)
    then show ?thesis by simp
  qed
qed

text \<open>When every attempt fails, the profile fetch re-raises the last exception.\<close>

lemma scraper_loop_exhausted:
  "\<forall>j<n. attempt_fails (get (i + j)) \<Longrightarrow> int (i + n) = mr \<Longrightarrow>
   result (scraper_fetch_loop get mr n i lst sl pr) =
     (if n = 0 then (case lst of None \<Rightarrow> Inl TypeError | Some e \<Rightarrow> Inl (RequestException e))
      else Inl (RequestException (projl (scraper_try (get (i + n - 1)))))) \<and>
   attempts (scraper_fetch_loop get mr n i lst sl pr) = i + n \<and>
   slept (scraper_fetch_loop get mr n i lst sl pr) = sl @ map backoff [i..<i + n - 1]"
proof (induction n arbitrary: i lst sl pr)
  case 0
  show ?case by simp
next
  case (Suc n)
  from Suc.prems(1) have "attempt_fails (get i)" by force
  then obtain e where e: "scraper_try (get i) = Inl e" unfolding attempt_fails_iff by blast
  show ?case
  proof (cases n)
    case 0
    have "\<not> int i < mr - 1" using Suc.prems(2) 0 by simp
    then show ?thesis using e 0 by simp
  next
    case (Suc m)
    have lt: "int i < mr - 1" using Suc.prems(2) Suc by simp
    have a: "\<forall>j<n. attempt_fails (get (Suc i + j))"
      using Suc.prems(1) by (metis Suc_less_eq add_Suc_right add_Suc)
    have b: "int (Suc i + n) = mr" using Suc.prems(2) by simp
    have ih: "result (scraper_fetch_loop get mr n (Suc i) (Some e) (sl @ [backoff i]) (pr @ [WarnRetry e (i + 1)])) =
        (if n = 0 then (case Some e of None \<Rightarrow> Inl TypeError | Some e \<Rightarrow> Inl (RequestException e))
         else Inl (RequestException (projl (scraper_try (get (Suc i + n - 1)))))) \<and>
      attempts (scraper_fetch_loop get mr n (Suc i) (Some e) (sl @ [backoff i]) (pr @ [WarnRetry e (i + 1)])) = Suc i + n \<and>
      slept (scraper_fetch_loop get mr n (Suc i) (Some e) (sl @ [backoff i]) (pr @ [WarnRetry e (i + 1)])) =
        (sl @ [backoff i]) @ map backoff [Suc i..<Suc i + n - 1]"
      by (rule Suc.IH[OF a b])
    have step: "scraper_fetch_loop get mr (Suc n) i lst sl pr =
        scraper_fetch_loop get mr n (Suc i) (Some e) (sl @ [backoff i]) (pr @ [WarnRetry e (i + 1)])"
      using e lt by simp
    have up: "[i..<i + Suc n - 1] = i # [Suc i..<Suc i + n - 1]"
      using Suc by (simp add: upt_conv_Cons)
    show ?thesis unfolding step up using ih Suc by simp
  qed
qed

text \<open>When all three attempts raise, the listing fetch returns \<open>None\<close> and reports the last exception.\<close>

lemma crawler_exhausted:
  "get 0 = Raises e0 \<Longrightarrow> get 1 = Raises e1 \<Longrightarrow> get 2 = Raises e2 \<Longrightarrow>
   crawler_fetch_html get =
     \<lparr>result = None, attempts = 3, slept = [backoff 0, backoff 1, backoff 2],
      printed = [WarnError (Transport e0) 1, WarnError (Transport e1) 2, WarnError (Transport e2) 3,
                 ErrorFailed (Some (Transport e2))]\<rparr>"
  unfolding crawler_fetch_html_def nat_MAX_RETRIES
  by (simp add: numeral_2_eq_2)

subsection \<open>Claims about the fetchers\<close>

text \<open>
  C1 (as amended).  The listing and job fetch of \<open>fetch_info_baitoru.py\<close> treats a
  response with any status other than 200 as an immediate failure: it returns \<open>None\<close>
  with no further request and no sleep after that response.  The profile fetch of
  \<open>baitoru_scraper.py\<close> does not: a response with status 400 to 599 raises \<open>HTTPError\<close>
  inside the \<open>try\<close> and is retried like a transport failure, with the same backoff
  sleep, and a response with any other status is returned as success.  Neither
  variant makes more requests than its ceiling.
\<close>

theorem fetch_html_status_handling:
  "(\<forall>get k resp.
      k < 3 \<and> (\<forall>i<k. \<exists>e. get i = Raises e) \<and> get k = Responds resp \<and>
      status_code resp \<noteq> 200 \<longrightarrow>
        result (crawler_fetch_html get) = None \<and>
        attempts (crawler_fetch_html get) = k + 1 \<and>
        slept (crawler_fetch_html get) = map backoff [0..<k]) \<and>
   (\<forall>get max_retries k resp.
      int k < max_retries \<and> (\<forall>i<k. attempt_fails (get i)) \<and> get k = Responds resp \<and>
      \<not> http_error_status resp \<longrightarrow>
        result (scraper_fetch_html get max_retries) = Inr (resp_text resp) \<and>
        attempts (scraper_fetch_html get max_retries) = k + 1 \<and>
        slept (scraper_fetch_html get max_retries) = map backoff [0..<k]) \<and>
   (\<forall>get max_retries.
      attempts (crawler_fetch_html get) \<le> 3 \<and>
      attempts (scraper_fetch_html get max_retries) \<le> nat max_retries)"
proof (intro conjI allI impI)
  fix get :: "nat \<Rightarrow> get_result" and k resp
  assume h: "k < 3 \<and> (\<forall>i<k. \<exists>e. get i = Raises e) \<and> get k = Responds resp \<and>
      status_code resp \<noteq> 200"
  have a: "\<forall>j<k. \<exists>e. get (0 + j) = Raises e" using h by simp
  have b: "get (0 + k) = Responds resp" using h by simp
  have c: "k < Suc (Suc (Suc 0))" using h by simp
  note r = crawler_loop_response[OF a b c, of None "[]" "[]"]
  show "result (crawler_fetch_html get) = None"
    using r h unfolding crawler_fetch_html_def nat_MAX_RETRIES by simp
  show "attempts (crawler_fetch_html get) = k + 1"
    using r unfolding crawler_fetch_html_def nat_MAX_RETRIES by simp
  show "slept (crawler_fetch_html get) = map backoff [0..<k]"
    using r unfolding crawler_fetch_html_def nat_MAX_RETRIES by simp
next
  fix get :: "nat \<Rightarrow> get_result" and max_retries :: int and k resp
  assume h: "int k < max_retries \<and> (\<forall>i<k. attempt_fails (get i)) \<and> get k = Responds resp \<and>
      \<not> http_error_status resp"
  have a: "\<forall>j<k. attempt_fails (get (0 + j))" using h by simp
  have b: "scraper_try (get (0 + k)) = Inr (resp_text resp)"
    using h scraper_try_ok by simp
  have c: "k < nat max_retries" using h by linarith
  have d: "int (0 + k) < max_retries" using h by simp
  note r = scraper_loop_success[OF a b c d, of None "[]" "[]"]
  show "result (scraper_fetch_html get max_retries) = Inr (resp_text resp)"
    using r unfolding scraper_fetch_html_def by simp
  show "attempts (scraper_fetch_html get max_retries) = k + 1"
    using r unfolding scraper_fetch_html_def by simp
  show "slept (scraper_fetch_html get max_retries) = map backoff [0..<k]"
    using r unfolding scraper_fetch_html_def by simp
next
  fix get :: "nat \<Rightarrow> get_result"
  show "attempts (crawler_fetch_html get) \<le> 3"
    using crawler_loop_attempts[of get "Suc (Suc (Suc 0))" 0 None "[]" "[]"]
    unfolding crawler_fetch_html_def nat_MAX_RETRIES by simp
next
  fix get :: "nat \<Rightarrow> get_result" and max_retries :: int
  show "attempts (scraper_fetch_html get max_retries) \<le> nat max_retries"
    using scraper_loop_attempts[of get max_retries "nat max_retries" 0 None "[]" "[]"]
    unfolding scraper_fetch_html_def by simp
qed

text \<open>
  The server \<open>flaky_503\<close> answers 503 once and 200 afterwards: the listing fetch gives
  up at once, the profile fetch sleeps \<open>backoff 0\<close> and asks again.
\<close>

theorem fetch_html_status_handling_witness:
  "result (crawler_fetch_html flaky_503) = None \<and>
   attempts (crawler_fetch_html flaky_503) = 1 \<and>
   slept (crawler_fetch_html flaky_503) = [] \<and>
   result (scraper_fetch_html flaky_503 MAX_RETRIES) = Inr (u ''ok'') \<and>
   attempts (scraper_fetch_html flaky_503 MAX_RETRIES) = 2 \<and>
   slept (scraper_fetch_html flaky_503 MAX_RETRIES) = [backoff 0] \<and>
   attempts (scraper_fetch_html always_timeout MAX_RETRIES) \<le> 3"
proof -
  let ?r503 = "\<lparr>status_code = 503, resp_text = u ''busy'', apparent_text = u ''busy''\<rparr>"
  let ?r200 = "\<lparr>status_code = 200, resp_text = u ''ok'', apparent_text = u ''ok''\<rparr>"
  have c: "(0::nat) < 3 \<and> (\<forall>i<0. \<exists>e. flaky_503 i = Raises e) \<and> flaky_503 0 = Responds ?r503 \<and>
      status_code ?r503 \<noteq> 200"
    by (simp add: flaky_503_def)
  have s: "int 1 < MAX_RETRIES \<and> (\<forall>i<1. attempt_fails (flaky_503 i)) \<and>
      flaky_503 1 = Responds ?r200 \<and> \<not> http_error_status ?r200"
    by (simp add: flaky_503_def MAX_RETRIES_def attempt_fails_def http_error_status_def)
  from fetch_html_status_handling c
  have 1: "result (crawler_fetch_html flaky_503) = None \<and>
        attempts (crawler_fetch_html flaky_503) = 0 + 1 \<and>
        slept (crawler_fetch_html flaky_503) = map backoff [0..<0]"
    by blast
  from fetch_html_status_handling s
  have 2: "result (scraper_fetch_html flaky_503 MAX_RETRIES) = Inr (resp_text ?r200) \<and>
        attempts (scraper_fetch_html flaky_503 MAX_RETRIES) = 1 + 1 \<and>
        slept (scraper_fetch_html flaky_503 MAX_RETRIES) = map backoff [0..<1]"
    by blast
  from fetch_html_status_handling
  have 3: "attempts (scraper_fetch_html always_timeout MAX_RETRIES) \<le> nat MAX_RETRIES"
    by blast
  show ?thesis using 1 2 3 by (simp add: MAX_RETRIES_def)
qed

text \<open>
  C1 as stated fails for the profile fetch: the 503 response is followed by a sleep
  of three seconds and a second request, which succeeds.
\<close>

theorem fetch_html_status_retried_counterexample:
  "attempts (scraper_fetch_html flaky_503 MAX_RETRIES) = 2 \<and>
   slept (scraper_fetch_html flaky_503 MAX_RETRIES) = [3] \<and>
   result (scraper_fetch_html flaky_503 MAX_RETRIES) = Inr (u ''ok'')"
  unfolding scraper_fetch_html_def nat_MAX_RETRIES
  by (simp add: flaky_503_def scraper_try_def raise_for_status_def http_error_status_def
      MAX_RETRIES_def backoff_def BASE_BACKOFF_SEC_def)

text \<open>
  C4.  For every \<open>k < 3\<close>: if \<open>get\<close> raises a transport failure on each of the first
  \<open>k\<close> calls and call \<open>k + 1\<close> returns a response with status 200, then both fetchers
  return that response's text after exactly \<open>k + 1\<close> attempts, and the sleeps add up
  to \<open>BASE_BACKOFF_SEC * (1 + 2 + ... + k)\<close>.
\<close>

theorem fetch_html_retry_then_success:
  assumes "k < 3"
    and "\<forall>i<k. \<exists>e. get i = Raises e"
    and "get k = Responds resp"
    and "status_code resp = 200"
  shows "result (scraper_fetch_html get MAX_RETRIES) = Inr (resp_text resp) \<and>
         attempts (scraper_fetch_html get MAX_RETRIES) = k + 1 \<and>
         sum_list (slept (scraper_fetch_html get MAX_RETRIES)) =
           BASE_BACKOFF_SEC * (\<Sum>j = 1..k. j) \<and>
         result (crawler_fetch_html get) = Some (apparent_text resp) \<and>
         attempts (crawler_fetch_html get) = k + 1 \<and>
         sum_list (slept (crawler_fetch_html get)) = BASE_BACKOFF_SEC * (\<Sum>j = 1..k. j)"
proof -
  have fails: "\<forall>j<k. attempt_fails (get (0 + j))"
    using assms(2) by (auto simp: attempt_fails_def)
  have ok: "scraper_try (get (0 + k)) = Inr (resp_text resp)"
    using assms(3,4) by (simp add: scraper_try_ok http_error_status_def)
  have k3: "k < nat MAX_RETRIES" "int (0 + k) < MAX_RETRIES"
    using assms(1) by (simp_all add: MAX_RETRIES_def)
  note s = scraper_loop_success[OF fails ok k3, of None "[]" "[]"]
  have a: "\<forall>j<k. \<exists>e. get (0 + j) = Raises e" using assms(2) by simp
  have b: "get (0 + k) = Responds resp" using assms(3) by simp
  have c: "k < Suc (Suc (Suc 0))" using assms(1) by simp
  note r = crawler_loop_response[OF a b c, of None "[]" "[]"]
  have s1: "result (scraper_fetch_html get MAX_RETRIES) = Inr (resp_text resp)"
    using s unfolding scraper_fetch_html_def by simp
  have s2: "attempts (scraper_fetch_html get MAX_RETRIES) = k + 1"
    using s unfolding scraper_fetch_html_def by simp
  have s3: "slept (scraper_fetch_html get MAX_RETRIES) = map backoff [0..<k]"
    using s unfolding scraper_fetch_html_def by simp
  have c1: "result (crawler_fetch_html get) = Some (apparent_text resp)"
    using r assms(4) unfolding crawler_fetch_html_def nat_MAX_RETRIES by simp
  have c2: "attempts (crawler_fetch_html get) = k + 1"
    using r unfolding crawler_fetch_html_def nat_MAX_RETRIES by simp
  have c3: "slept (crawler_fetch_html get) = map backoff [0..<k]"
    using r unfolding crawler_fetch_html_def nat_MAX_RETRIES by simp
  show ?thesis
    unfolding s1 s2 s3 c1 c2 c3 backoff_sum by simp
qed

text \<open>Two connection errors, then the page: three attempts, sleeps of 3 and 6 seconds.\<close>

theorem fetch_html_retry_then_success_witness:
  "result (scraper_fetch_html fail_twice MAX_RETRIES) = Inr (u ''page'') \<and>
   attempts (scraper_fetch_html fail_twice MAX_RETRIES) = 3 \<and>
   sum_list (slept (scraper_fetch_html fail_twice MAX_RETRIES)) = 9 \<and>
   result (crawler_fetch_html fail_twice) = Some (u ''page'') \<and>
   attempts (crawler_fetch_html fail_twice) = 3 \<and>
   sum_list (slept (crawler_fetch_html fail_twice)) = 9"
proof -
  let ?r = "\<lparr>status_code = 200, resp_text = u ''page'', apparent_text = u ''page''\<rparr>"
  have h1: "(2::nat) < 3" by simp
  have h2: "\<forall>i<2. \<exists>e. fail_twice i = Raises e" by (simp add: fail_twice_def)
  have h3: "fail_twice 2 = Responds ?r" by (simp add: fail_twice_def)
  have h4: "status_code ?r = 200" by simp
  have sm: "(\<Sum>j = 1..2::nat. j) = 3" by (simp add: numeral_2_eq_2)
  show ?thesis
    using fetch_html_retry_then_success[OF h1 h2 h3 h4]
    unfolding sm by (simp add: BASE_BACKOFF_SEC_def)
qed

text \<open>
  C6 (as amended).  The listing and job fetch never raises: when all three attempts
  end in a transport failure it returns \<open>None\<close> and reports the last exception, and a
  response with a status other than 200 gives \<open>None\<close> and a status warning.  The
  profile fetch does raise: when all \<open>max_retries\<close> attempts fail (\<open>max_retries > 0\<close>),
  the exception of the last attempt is raised to the caller.
\<close>

theorem fetch_html_exhausted:
  "(\<forall>get e0 e1 e2.
      get 0 = Raises e0 \<and> get 1 = Raises e1 \<and> get 2 = Raises e2 \<longrightarrow>
        result (crawler_fetch_html get) = None \<and>
        attempts (crawler_fetch_html get) = 3 \<and>
        last (printed (crawler_fetch_html get)) = ErrorFailed (Some (Transport e2))) \<and>
   (\<forall>get k resp.
      k < 3 \<and> (\<forall>i<k. \<exists>e. get i = Raises e) \<and> get k = Responds resp \<and>
      status_code resp \<noteq> 200 \<longrightarrow>
        result (crawler_fetch_html get) = None \<and>
        last (printed (crawler_fetch_html get)) = WarnStatus (status_code resp)) \<and>
   (\<forall>get max_retries e.
      0 < max_retries \<and> (\<forall>i<nat max_retries. attempt_fails (get i)) \<and>
      scraper_try (get (nat max_retries - 1)) = Inl e \<longrightarrow>
        result (scraper_fetch_html get max_retries) = Inl (RequestException e) \<and>
        attempts (scraper_fetch_html get max_retries) = nat max_retries)"
proof (intro conjI allI impI)
  fix get :: "nat \<Rightarrow> get_result" and e0 e1 e2
  assume h: "get 0 = Raises e0 \<and> get 1 = Raises e1 \<and> get 2 = Raises e2"
  then have r: "crawler_fetch_html get =
     \<lparr>result = None, attempts = 3, slept = [backoff 0, backoff 1, backoff 2],
      printed = [WarnError (Transport e0) 1, WarnError (Transport e1) 2, WarnError (Transport e2) 3,
                 ErrorFailed (Some (Transport e2))]\<rparr>"
    using crawler_exhausted by blast
  show "result (crawler_fetch_html get) = None" unfolding r by simp
  show "attempts (crawler_fetch_html get) = 3" unfolding r by simp
  show "last (printed (crawler_fetch_html get)) = ErrorFailed (Some (Transport e2))"
    unfolding r by simp
next
  fix get :: "nat \<Rightarrow> get_result" and k resp
  assume h: "k < 3 \<and> (\<forall>i<k. \<exists>e. get i = Raises e) \<and> get k = Responds resp \<and>
      status_code resp \<noteq> 200"
  have a: "\<forall>j<k. \<exists>e. get (0 + j) = Raises e" using h by simp
  have b: "get (0 + k) = Responds resp" using h by simp
  have c: "k < Suc (Suc (Suc 0))" using h by simp
  note r = crawler_loop_response[OF a b c, of None "[]" "[]"]
  show "result (crawler_fetch_html get) = None"
    using r h unfolding crawler_fetch_html_def nat_MAX_RETRIES by simp
  show "last (printed (crawler_fetch_html get)) = WarnStatus (status_code resp)"
    using r h unfolding crawler_fetch_html_def nat_MAX_RETRIES by simp
next
  fix get :: "nat \<Rightarrow> get_result" and max_retries :: int and e
  assume h: "0 < max_retries \<and> (\<forall>i<nat max_retries. attempt_fails (get i)) \<and>
      scraper_try (get (nat max_retries - 1)) = Inl e"
  have a: "\<forall>j<nat max_retries. attempt_fails (get (0 + j))" using h by simp
  have b: "int (0 + nat max_retries) = max_retries" using h by simp
  have n0: "nat max_retries \<noteq> 0" using h by simp
  note r = scraper_loop_exhausted[OF a b, of None "[]" "[]"]
  show "result (scraper_fetch_html get max_retries) = Inl (RequestException e)"
    using r h n0 unfolding scraper_fetch_html_def by simp
  show "attempts (scraper_fetch_html get max_retries) = nat max_retries"
    using r unfolding scraper_fetch_html_def by simp
qed

text \<open>A server that always times out, and the server \<open>flaky_503\<close> seen by the listing fetch.\<close>

theorem fetch_html_exhausted_witness:
  "result (crawler_fetch_html always_timeout) = None \<and>
   attempts (crawler_fetch_html always_timeout) = 3 \<and>
   last (printed (crawler_fetch_html always_timeout)) = ErrorFailed (Some (Transport Timeout)) \<and>
   result (crawler_fetch_html flaky_503) = None \<and>
   last (printed (crawler_fetch_html flaky_503)) = WarnStatus 503 \<and>
   result (scraper_fetch_html always_timeout MAX_RETRIES) = Inl (RequestException (Transport Timeout)) \<and>
   attempts (scraper_fetch_html always_timeout MAX_RETRIES) = 3"
proof -
  let ?r503 = "\<lparr>status_code = 503, resp_text = u ''busy'', apparent_text = u ''busy''\<rparr>"
  have a: "always_timeout 0 = Raises Timeout \<and> always_timeout 1 = Raises Timeout \<and>
      always_timeout 2 = Raises Timeout"
    by (simp add: always_timeout_def)
  have c: "(0::nat) < 3 \<and> (\<forall>i<0. \<exists>e. flaky_503 i = Raises e) \<and> flaky_503 0 = Responds ?r503 \<and>
      status_code ?r503 \<noteq> 200"
    by (simp add: flaky_503_def)
  have s: "0 < MAX_RETRIES \<and> (\<forall>i<nat MAX_RETRIES. attempt_fails (always_timeout i)) \<and>
      scraper_try (always_timeout (nat MAX_RETRIES - 1)) = Inl (Transport Timeout)"
    by (simp add: MAX_RETRIES_def always_timeout_def attempt_fails_def scraper_try_def)
  from fetch_html_exhausted a
  have 1: "result (crawler_fetch_html always_timeout) = None \<and>
        attempts (crawler_fetch_html always_timeout) = 3 \<and>
        last (printed (crawler_fetch_html always_timeout)) = ErrorFailed (Some (Transport Timeout))"
    by blast
  from fetch_html_exhausted c
  have 2: "result (crawler_fetch_html flaky_503) = None \<and>
        last (printed (crawler_fetch_html flaky_503)) = WarnStatus (status_code ?r503)"
    by blast
  from fetch_html_exhausted s
  have 3: "result (scraper_fetch_html always_timeout MAX_RETRIES) = Inl (RequestException (Transport Timeout)) \<and>
        attempts (scraper_fetch_html always_timeout MAX_RETRIES) = nat MAX_RETRIES"
    by blast
  show ?thesis using 1 2 3 by (simp add: MAX_RETRIES_def)
qed

text \<open>
  C6 as stated fails for the profile fetch: with a server that always times out,
  \<open>raise last_exc\<close> hands the timeout to the caller.
\<close>

theorem fetch_html_raises_counterexample:
  "result (scraper_fetch_html always_timeout MAX_RETRIES) = Inl (RequestException (Transport Timeout))"
  unfolding scraper_fetch_html_def nat_MAX_RETRIES
  by (simp add: always_timeout_def scraper_try_def MAX_RETRIES_def)

section \<open>\<open>extract_prefecture\<close>\<close>

text \<open>
  C3 at the address "Kanagawa-ken Yokohama-shi".  The address begins with the full
  prefecture name, four characters long; the two-characters-and-\<open>ken\<close> alternative
  matches one position later, and the function returns the last three characters
  of the name (U+5948 U+5DDD U+770C), which is not the name of a prefecture.
\<close>

theorem extract_prefecture_kanagawa:
  "startswith kanagawa_yokohama kanagawa_ken \<and>
   extract_prefecture (Some kanagawa_yokohama) = Some [0x5948, 0x5DDD, 0x770C] \<and>
   extract_prefecture (Some kanagawa_yokohama) \<noteq> Some kanagawa_ken"
  by (simp add: extract_prefecture_def kanagawa_yokohama_def kanagawa_ken_def PREF_PATTERN_def
      hokkaido_def tokyo_to_def kyoto_fu_def osaka_fu_def ken_def dot_def)

section \<open>Properties of the link extractors\<close>

lemma digits_slash_digits:
  "digits_slash d s = Some r \<Longrightarrow> r \<noteq> [] \<and> list_all d r"
proof (induction s arbitrary: r)
  case Nil
  then show ?case by simp
next
  case (Cons c cs)
  show ?case
  proof (cases "d c")
    case False
    with Cons.prems show ?thesis by simp
  next
    case True
    show ?thesis
    proof (cases "digits_slash d cs")
      case None
      with Cons.prems True show ?thesis by (auto split: if_splits)
    next
      case (Some r')
      with Cons.prems True have "r = c # r'" by simp
      moreover from Cons.IH[OF Some] have "list_all d r'" by simp
      ultimately show ?thesis using True by simp
    qed
  qed
qed

lemma re_search_SomeD:
  "re_search m s = Some r \<Longrightarrow> \<exists>t. m t = Some r"
  by (induction s) (auto split: option.splits)

lemma CJLIST_RE_digits:
  "CJLIST_RE d s = Some r \<Longrightarrow> r \<noteq> [] \<and> list_all d r"
  unfolding CJLIST_RE_def by (auto split: option.splits dest: digits_slash_digits)

lemma cjlist_id_of_href_digits:
  "cjlist_id_of_href env href = Some r \<Longrightarrow> digit_string env r"
  unfolding cjlist_id_of_href_def digit_string_def
  by (auto split: option.splits sum.splits dest!: re_search_SomeD CJLIST_RE_digits)

lemma set_set_add: "set (set_add s x) = insert x (set s)"
  by (auto simp: set_add_def)

lemma distinct_set_add: "distinct s \<Longrightarrow> distinct (set_add s x)"
  by (simp add: set_add_def)

lemma cjlist_fold_set:
  "set (foldl (\<lambda>ids href. (case cjlist_id_of_href env href of None \<Rightarrow> ids | Some g \<Rightarrow> set_add ids g)) acc hs)
   = set acc \<union> {g. \<exists>h\<in>set hs. cjlist_id_of_href env h = Some g}"
  by (induction hs arbitrary: acc) (auto simp: set_set_add split: option.splits)

lemma cjlist_fold_distinct:
  "distinct acc \<Longrightarrow>
   distinct (foldl (\<lambda>ids href. (case cjlist_id_of_href env href of None \<Rightarrow> ids | Some g \<Rightarrow> set_add ids g)) acc hs)"
  by (induction hs arbitrary: acc) (auto simp: distinct_set_add split: option.splits)

lemma set_extract_cjlist_ids:
  "set (extract_cjlist_ids_from_html env html) =
     {g. \<exists>h\<in>set (find_all_a_href (BeautifulSoup env html)). cjlist_id_of_href env h = Some g}"
  unfolding extract_cjlist_ids_from_html_def cjlist_fold_set by simp

lemma extract_cjlist_ids_digits:
  "g \<in> set (extract_cjlist_ids_from_html env html) \<Longrightarrow> digit_string env g"
  unfolding set_extract_cjlist_ids by (auto dest: cjlist_id_of_href_digits)

subsection \<open>Absolute and site-relative employer links\<close>

lemma u_cjlist: "u ''/cjlist'' = [0x2F, 0x63, 0x6A, 0x6C, 0x69, 0x73, 0x74]"
  by (simp add: u_def)

lemma CJLIST_RE_not_slash:
  "c \<noteq> 0x2F \<Longrightarrow> CJLIST_RE d (c # cs) = None"
  by (simp add: CJLIST_RE_def u_cjlist ic_eq_def ic_class_def)

lemma CJLIST_RE_slash_not_c:
  "c \<noteq> 0x63 \<Longrightarrow> c \<noteq> 0x43 \<Longrightarrow> CJLIST_RE d (0x2F # c # cs) = None"
  by (simp add: CJLIST_RE_def u_cjlist ic_eq_def ic_class_def)

lemma CJLIST_RE_Nil: "CJLIST_RE d [] = None"
  by (simp add: CJLIST_RE_def u_cjlist)

lemma site_origin_chars:
  "site_origin = [0x68, 0x74, 0x74, 0x70, 0x73, 0x3A, 0x2F, 0x2F, 0x77, 0x77, 0x77, 0x2E, 0x62, 0x61,
     0x69, 0x74, 0x6F, 0x72, 0x75, 0x2E, 0x63, 0x6F, 0x6D]"
  by (simp add: site_origin_def BASE_DOMAIN_def u_def)

lemma re_search_site_origin:
  "re_search (CJLIST_RE d) (site_origin @ rel) = re_search (CJLIST_RE d) rel"
  unfolding site_origin_chars
  by (simp add: CJLIST_RE_not_slash CJLIST_RE_slash_not_c)


lemma ic_eq_refl: "ic_eq p p"
  by (simp add: ic_eq_def ic_class_def)

lemma ic_literal_self: "ic_literal p (p @ s) = Some s"
  by (induction p) (simp_all add: ic_eq_refl)

lemma digits_slash_run:
  "ds \<noteq> [] \<Longrightarrow> list_all d ds \<Longrightarrow> \<exists>g. digits_slash d (ds @ slash # rest) = Some g"
proof (induction ds)
  case Nil
  then show ?case by simp
next
  case (Cons c cs)
  show ?case
  proof (cases "cs = []")
    case True
    with Cons.prems show ?thesis by (auto split: option.splits)
  next
    case False
    with Cons.prems Cons.IH obtain g where "digits_slash d (cs @ slash # rest) = Some g"
      by auto
    with Cons.prems show ?thesis by simp
  qed
qed

lemma re_search_head: "m (c # cs) = Some g \<Longrightarrow> re_search m (c # cs) = Some g"
  by simp

lemma cjlist_link_matches:
  assumes "digit_string env cid"
  shows "\<exists>g. re_search (CJLIST_RE (re_digit env)) (u ''/cjlist'' @ cid @ u ''/'' @ rest) = Some g"
proof -
  have sl: "u ''/'' = [slash]" by (simp add: u_def slash_def)
  from assms digits_slash_run[of cid "re_digit env" rest]
  obtain g where g: "digits_slash (re_digit env) (cid @ slash # rest) = Some g"
    unfolding digit_string_def by blast
  have m: "CJLIST_RE (re_digit env) (u ''/cjlist'' @ cid @ u ''/'' @ rest) = Some g"
    unfolding CJLIST_RE_def ic_literal_self sl using g by simp
  obtain c cs where ne: "u ''/cjlist'' @ cid @ u ''/'' @ rest = c # cs"
    by (cases "u ''/cjlist'' @ cid @ u ''/'' @ rest") (simp_all add: u_cjlist)
  have "re_search (CJLIST_RE (re_digit env)) (c # cs) = Some g"
    by (rule re_search_head) (use m ne in simp)
  then show ?thesis unfolding ne by blast
qed


lemma cjlist_id_of_href_path:
  "cjlist_id_of_href env href =
     (case re_search (CJLIST_RE (re_digit env)) href of
        Some g \<Rightarrow> Some g
      | None \<Rightarrow> (case url_path env href of
                   None \<Rightarrow> None
                 | Some p \<Rightarrow> re_search (CJLIST_RE (re_digit env)) p))"
  unfolding cjlist_id_of_href_def url_path_def by (simp split: option.splits sum.splits)

lemma cjlist_id_site_origin:
  assumes "(\<exists>cid rest. rel = u ''/cjlist'' @ cid @ u ''/'' @ rest \<and> digit_string env cid) \<or>
           url_path env (site_origin @ rel) = url_path env rel"
  shows "cjlist_id_of_href env (site_origin @ rel) = cjlist_id_of_href env rel"
proof -
  have s: "re_search (CJLIST_RE (re_digit env)) (site_origin @ rel) =
      re_search (CJLIST_RE (re_digit env)) rel"
    by (rule re_search_site_origin)
  from assms consider
    (direct) g where "re_search (CJLIST_RE (re_digit env)) rel = Some g"
    | (same_path) "url_path env (site_origin @ rel) = url_path env rel"
    using cjlist_link_matches by blast
  then show ?thesis
  proof cases
    case direct
    show ?thesis
      unfolding cjlist_id_of_href_path[of env "site_origin @ rel"] cjlist_id_of_href_path[of env rel]
        s direct by simp
  next
    case same_path
    show ?thesis
      unfolding cjlist_id_of_href_path[of env "site_origin @ rel"] cjlist_id_of_href_path[of env rel]
        s same_path by (rule refl)
  qed
qed

text \<open>
  C9.  Two pages whose anchors carry the same links, except that one link is
  written site-relative on one page and with the origin \<open>https://www.baitoru.com\<close>
  in front on the other, give the same set of identifiers.  This holds when the link
  has the form \<open>/cjlist{id}/\<close> followed by anything, which the direct search finds in
  both forms, and also for any other link on which \<open>urlparse\<close> gives both forms the
  same path, which is where the fallback on the path component decides.
\<close>

theorem extract_cjlist_ids_absolute_relative:
  assumes "find_all_a_href (BeautifulSoup env html_rel) = before @ [rel] @ after"
    and "find_all_a_href (BeautifulSoup env html_abs) = before @ [site_origin @ rel] @ after"
    and "(\<exists>cid rest. rel = u ''/cjlist'' @ cid @ u ''/'' @ rest \<and> digit_string env cid) \<or>
         url_path env (site_origin @ rel) = url_path env rel"
  shows "extract_cjlist_ids_from_html env html_abs = extract_cjlist_ids_from_html env html_rel \<and>
         set (extract_cjlist_ids_from_html env html_abs) =
         set (extract_cjlist_ids_from_html env html_rel)"
proof -
  have same: "cjlist_id_of_href env (site_origin @ rel) = cjlist_id_of_href env rel"
    by (rule cjlist_id_site_origin[OF assms(3)])
  have "extract_cjlist_ids_from_html env html_abs = extract_cjlist_ids_from_html env html_rel"
    unfolding extract_cjlist_ids_from_html_def assms(1) assms(2)
    by (simp add: same)
  then show ?thesis by simp
qed

text \<open>
  The two example pages: the link with a tab inside the identifier is missed by
  the direct search in both forms and found through the path in both.
\<close>

theorem extract_cjlist_ids_absolute_relative_witness:
  "extract_cjlist_ids_from_html env_rel_abs (u ''ABS'') =
     extract_cjlist_ids_from_html env_rel_abs (u ''REL'') \<and>
   set (extract_cjlist_ids_from_html env_rel_abs (u ''ABS'')) =
     set (extract_cjlist_ids_from_html env_rel_abs (u ''REL'')) \<and>
   extract_cjlist_ids_from_html env_rel_abs (u ''REL'') = [u ''7'', u ''123''] \<and>
   re_search (CJLIST_RE (re_digit env_rel_abs)) rel_href = None"
proof -
  have h1: "find_all_a_href (BeautifulSoup env_rel_abs (u ''REL'')) = [u ''/cjlist7/''] @ [rel_href] @ []"
    by code_simp
  have h2: "find_all_a_href (BeautifulSoup env_rel_abs (u ''ABS'')) =
      [u ''/cjlist7/''] @ [site_origin @ rel_href] @ []"
    by code_simp
  have h3: "(\<exists>cid rest. rel_href = u ''/cjlist'' @ cid @ u ''/'' @ rest \<and> digit_string env_rel_abs cid) \<or>
      url_path env_rel_abs (site_origin @ rel_href) = url_path env_rel_abs rel_href"
  proof -
    have "url_path env_rel_abs (site_origin @ rel_href) = url_path env_rel_abs rel_href"
      by code_simp
    then show ?thesis by simp
  qed
  have v: "extract_cjlist_ids_from_html env_rel_abs (u ''REL'') = [u ''7'', u ''123'']"
    by code_simp
  have miss: "re_search (CJLIST_RE (re_digit env_rel_abs)) rel_href = None"
    by code_simp
  show ?thesis
    using extract_cjlist_ids_absolute_relative[OF h1 h2 h3] v miss by simp
qed

subsection \<open>Job links of a listing page\<close>

lemma job_links_loop_set:
  "job_links_loop env base_url rows acc = Inr links \<Longrightarrow>
   set links = set acc \<union>
     {l. \<exists>li\<in>set rows. \<exists>href parsed.
          tag_find_a_href li = Some href \<and> urljoin env base_url href = Inr l \<and>
          urlparse env l = Inr parsed \<and>
          (netloc parsed = [] \<or> netloc parsed = BASE_DOMAIN) \<and>
          re_test JOB_DETAIL_RE (path parsed)}"
proof (induction rows arbitrary: acc)
  case Nil
  then show ?case by simp
next
  case (Cons li lis)
  show ?case
  proof (cases "tag_find_a_href li")
    case None
    with Cons.prems have "job_links_loop env base_url lis acc = Inr links" by simp
    from Cons.IH[OF this] None show ?thesis by auto
  next
    case (Some href)
    show ?thesis
    proof (cases "urljoin env base_url href")
      case (Inl e)
      with Cons.prems Some show ?thesis by simp
    next
      case (Inr abs_url)
      note j = this
      show ?thesis
      proof (cases "urlparse env abs_url")
        case (Inl e)
        with Cons.prems Some j show ?thesis by simp
      next
        case (Inr parsed)
        note p = this
        show ?thesis
        proof (cases "(netloc parsed = [] \<or> netloc parsed = BASE_DOMAIN) \<and>
                      re_test JOB_DETAIL_RE (path parsed)")
          case True
          with Cons.prems Some j p
          have "job_links_loop env base_url lis (set_add acc abs_url) = Inr links"
            by (auto split: if_splits)
          from Cons.IH[OF this] Some j p True show ?thesis
            by (auto simp: set_set_add)
        next
          case False
          with Cons.prems Some j p
          have "job_links_loop env base_url lis acc = Inr links"
            by (auto split: if_splits)
          from Cons.IH[OF this] Some j p False show ?thesis
            by auto
        qed
      qed
    qed
  qed
qed


lemma select_from_nested:
  "li \<in> set (select_from inside n) \<Longrightarrow>
   is_tag (u ''li'') li \<and> has_token li (u ''class'') (u ''li01'') \<and>
   li \<in> set (descendants_self n) \<and>
   (inside \<or> (\<exists>ul\<in>set (descendants_self n).
      is_tag (u ''ul'') ul \<and> has_token ul (u ''class'') (u ''ul01'') \<and>
      li \<in> set (descendants (children ul))))"
proof (induction inside n rule: select_from.induct)
  case (1 inside s)
  then show ?case by simp
next
  case (2 inside name attrs cs)
  let ?n = "Tag name attrs cs"
  let ?flag = "inside \<or> (name = u ''ul'' \<and> has_token ?n (u ''class'') (u ''ul01''))"
  from "2.prems" consider
    (here) "li = ?n" "inside" "name = u ''li''" "has_token ?n (u ''class'') (u ''li01'')"
    | (below) c where "c \<in> set cs" "li \<in> set (select_from ?flag c)"
    by (auto split: if_splits)
  then show ?case
  proof cases
    case here
    then show ?thesis by (simp add: is_tag_def)
  next
    case below
    from "2.IH"[OF below(1) below(2)]
    have ih: "is_tag (u ''li'') li" "has_token li (u ''class'') (u ''li01'')"
      "li \<in> set (descendants_self c)"
      "?flag \<or> (\<exists>ul\<in>set (descendants_self c).
        is_tag (u ''ul'') ul \<and> has_token ul (u ''class'') (u ''ul01'') \<and>
        li \<in> set (descendants (children ul)))"
      by blast+
    have sub: "set (descendants_self c) \<subseteq> set (descendants cs)"
      using below(1) by (auto simp: descendants_def)
    have d: "li \<in> set (descendants_self ?n)"
      using ih(3) sub by (auto simp: descendants_def)
    from ih(4) consider (a) inside
      | (b) "name = u ''ul''" "has_token ?n (u ''class'') (u ''ul01'')"
      | (c) ul where "ul \<in> set (descendants_self c)" "is_tag (u ''ul'') ul"
          "has_token ul (u ''class'') (u ''ul01'')" "li \<in> set (descendants (children ul))"
      by blast
    then have "inside \<or> (\<exists>ul\<in>set (descendants_self ?n).
        is_tag (u ''ul'') ul \<and> has_token ul (u ''class'') (u ''ul01'') \<and>
        li \<in> set (descendants (children ul)))"
    proof cases
      case a
      then show ?thesis by simp
    next
      case b
      have "li \<in> set (descendants (children ?n))"
        using ih(3) sub by (auto simp: children_def)
      moreover have "is_tag (u ''ul'') ?n" using b(1) by (simp add: is_tag_def)
      moreover have "?n \<in> set (descendants_self ?n)" by simp
      ultimately show ?thesis using b(2) by blast
    next
      case c
      have "ul \<in> set (descendants_self ?n)" using c(1) sub by (auto simp: descendants_def)
      then show ?thesis using c(2,3,4) by blast
    qed
    with ih(1,2) d show ?thesis by blast
  qed
qed

lemma select_ul01_li01_nested:
  assumes "li \<in> set (select_ul01_li01 soup)"
  shows "is_tag (u ''li'') li \<and> has_token li (u ''class'') (u ''li01'') \<and>
         (\<exists>ul\<in>set (descendants soup).
            is_tag (u ''ul'') ul \<and> has_token ul (u ''class'') (u ''ul01'') \<and>
            li \<in> set (descendants (children ul)))"
proof -
  from assms obtain n where n: "n \<in> set soup" "li \<in> set (select_from False n)"
    by (auto simp: select_ul01_li01_def)
  have sub: "set (descendants_self n) \<subseteq> set (descendants soup)"
    using n(1) by (auto simp: descendants_def)
  from select_from_nested[OF n(2)] sub show ?thesis by blast
qed

lemma map_filter_hd:
  "List.map_filter f xs = h # hs \<Longrightarrow> \<exists>x\<in>set xs. f x = Some h"
proof -
  assume a: "List.map_filter f xs = h # hs"
  have "h \<in> set (List.map_filter f xs)" unfolding a by simp
  then show ?thesis by (auto simp: map_filter_def)
qed

lemma tag_find_a_href_nested:
  "tag_find_a_href li = Some href \<Longrightarrow> \<exists>a\<in>set (descendants (children li)). a_href a = Some href"
  unfolding tag_find_a_href_def
  by (auto split: list.splits dest: map_filter_hd)


text \<open>
  C5 (as amended).  When \<open>extract_job_links_from_listing_html\<close> returns, a URL is in
  the result exactly when some listing row contributes it: a node selected by
  \<open>ul.ul01 li.li01\<close>, whose first anchor with an \<open>href\<close> is joined to the base URL to
  give this URL, whose netloc is empty or equal to \<open>www.baitoru.com\<close>, and whose path
  matches the job-detail pattern.  A row that fails one of the tests contributes
  nothing.  Every selected row is an \<open>li\<close> of class \<open>li01\<close> below a \<open>ul\<close> of class
  \<open>ul01\<close>, and the anchor lies below the row.  The host test lets a URL without a
  netloc pass.
\<close>

theorem extract_job_links_filters:
  assumes "extract_job_links_from_listing_html env html base_url = Inr links"
  shows "(\<forall>l. l \<in> set links \<longleftrightarrow>
           (\<exists>li\<in>set (select_ul01_li01 (BeautifulSoup env html)). \<exists>href parsed.
              tag_find_a_href li = Some href \<and> urljoin env base_url href = Inr l \<and>
              urlparse env l = Inr parsed \<and>
              (netloc parsed = [] \<or> netloc parsed = BASE_DOMAIN) \<and>
              re_test JOB_DETAIL_RE (path parsed))) \<and>
         (\<forall>li\<in>set (select_ul01_li01 (BeautifulSoup env html)).
            is_tag (u ''li'') li \<and> has_token li (u ''class'') (u ''li01'') \<and>
            (\<exists>ul\<in>set (descendants (BeautifulSoup env html)).
               is_tag (u ''ul'') ul \<and> has_token ul (u ''class'') (u ''ul01'') \<and>
               li \<in> set (descendants (children ul))) \<and>
            (\<forall>href. tag_find_a_href li = Some href \<longrightarrow>
               (\<exists>a\<in>set (descendants (children li)). a_href a = Some href)))"
proof (intro conjI allI ballI impI)
  fix l
  from assms
  have "set links = set [] \<union>
     {l. \<exists>li\<in>set (select_ul01_li01 (BeautifulSoup env html)). \<exists>href parsed.
          tag_find_a_href li = Some href \<and> urljoin env base_url href = Inr l \<and>
          urlparse env l = Inr parsed \<and>
          (netloc parsed = [] \<or> netloc parsed = BASE_DOMAIN) \<and>
          re_test JOB_DETAIL_RE (path parsed)}"
    unfolding extract_job_links_from_listing_html_def by (rule job_links_loop_set)
  then show "l \<in> set links \<longleftrightarrow>
           (\<exists>li\<in>set (select_ul01_li01 (BeautifulSoup env html)). \<exists>href parsed.
              tag_find_a_href li = Some href \<and> urljoin env base_url href = Inr l \<and>
              urlparse env l = Inr parsed \<and>
              (netloc parsed = [] \<or> netloc parsed = BASE_DOMAIN) \<and>
              re_test JOB_DETAIL_RE (path parsed))"
    by simp
next
  fix li
  assume li: "li \<in> set (select_ul01_li01 (BeautifulSoup env html))"
  note n = select_ul01_li01_nested[OF li]
  show "is_tag (u ''li'') li" using n by blast
  show "has_token li (u ''class'') (u ''li01'')" using n by blast
  show "\<exists>ul\<in>set (descendants (BeautifulSoup env html)).
               is_tag (u ''ul'') ul \<and> has_token ul (u ''class'') (u ''ul01'') \<and>
               li \<in> set (descendants (children ul))"
    using n by blast
next
  fix li href
  assume "tag_find_a_href li = Some href"
  then show "\<exists>a\<in>set (descendants (children li)). a_href a = Some href"
    by (rule tag_find_a_href_nested)
qed

text \<open>
  The listing page of the example site: its one row gives the job URL, which has
  the site's host.
\<close>

theorem extract_job_links_filters_witness:
  "extract_job_links_from_listing_html env0 (u ''LISTING'') listing_url0 = Inr [job_url0] \<and>
   (\<exists>li\<in>set (select_ul01_li01 (BeautifulSoup env0 (u ''LISTING''))). \<exists>href parsed.
      tag_find_a_href li = Some href \<and> urljoin env0 listing_url0 href = Inr job_url0 \<and>
      urlparse env0 job_url0 = Inr parsed \<and>
      (netloc parsed = [] \<or> netloc parsed = BASE_DOMAIN) \<and>
      re_test JOB_DETAIL_RE (path parsed))"
proof -
  have h: "extract_job_links_from_listing_html env0 (u ''LISTING'') listing_url0 = Inr [job_url0]"
    by code_simp
  have "job_url0 \<in> set [job_url0]" by simp
  with extract_job_links_filters[OF h] h show ?thesis by blast
qed

text \<open>
  C5 as stated fails: a row whose anchor is \<open>foo:/job1\<close> is returned as it is, and
  its host is not \<open>www.baitoru.com\<close>; it has no netloc at all, so the host test is
  skipped.
\<close>

theorem extract_job_links_host_counterexample:
  "extract_job_links_from_listing_html env_odd (u ''PAGE'') listing_url0 = Inr [u ''foo:/job1''] \<and>
   urlparse env_odd (u ''foo:/job1'') =
     Inr \<lparr>scheme = u ''foo'', netloc = [], path = u ''/job1'', params = [], query = [],
          fragment = []\<rparr> \<and>
   BASE_DOMAIN \<noteq> []"
  by code_simp

section \<open>Invariants of the crawl\<close>

lemma fetch_in_run_state:
  "snd (fetch_in_run env kind url_str st) =
     st\<lparr>clock := clock st + attempts (crawler_fetch_html (\<lambda>i. session_get env (clock st + i) url_str)),
        fetched := fetched st @ [(kind, url_str)]\<rparr>"
  by (simp add: fetch_in_run_def Let_def)

lemma fetch_in_run_fields [simp]:
  "company_infos (snd (fetch_in_run env kind url_str st)) = company_infos st"
  "visited_listing_urls (snd (fetch_in_run env kind url_str st)) = visited_listing_urls st"
  "visited_job_urls (snd (fetch_in_run env kind url_str st)) = visited_job_urls st"
  "fetched (snd (fetch_in_run env kind url_str st)) = fetched st @ [(kind, url_str)]"
  by (simp_all add: fetch_in_run_state)

text \<open>An invariant of the job loop: kept by a fetch of a fresh URL below the bound, and by a job page.\<close>

lemma job_loop_invariant:
  assumes "P st"
    and fetch: "\<And>s job_url. P s \<Longrightarrow> job_url \<notin> set (visited_job_urls s) \<Longrightarrow>
            int (length (visited_job_urls s)) < max_job_pages \<Longrightarrow>
            P (snd (fetch_in_run env Job job_url
                 (s\<lparr>visited_job_urls := set_add (visited_job_urls s) job_url\<rparr>)))"
    and page: "\<And>s job_url job_html. P s \<Longrightarrow>
            P (s\<lparr>company_infos := snd (job_page env cur job_url job_html (company_infos s))\<rparr>)"
  shows "P (snd (job_loop env max_job_pages cur jobs st))"
  using assms(1)
proof (induction jobs arbitrary: st)
  case Nil
  then show ?case by simp
next
  case (Cons job_url rest)
  show ?case
  proof (cases "max_job_pages \<le> int (length (visited_job_urls st))")
    case True
    then show ?thesis using Cons.prems by simp
  next
    case False
    note below = this
    show ?thesis
    proof (cases "job_url \<in> set (visited_job_urls st)")
      case True
      then show ?thesis using below Cons.IH[OF Cons.prems] by simp
    next
      case False
      let ?f = "fetch_in_run env Job job_url
                 (st\<lparr>visited_job_urls := set_add (visited_job_urls st) job_url\<rparr>)"
      have p1: "P (snd ?f)" using fetch[OF Cons.prems False] below by simp
      obtain r st1 where f: "?f = (r, st1)" by (cases ?f)
      have p1': "P st1" using p1 f by simp
      show ?thesis
      proof (cases r)
        case None
        then show ?thesis using below False f Cons.IH[OF p1'] by simp
      next
        case (Some job_html)
        show ?thesis
        proof (cases "job_html = []")
          case True
          then show ?thesis using below False f Some Cons.IH[OF p1'] by simp
        next
          case False
          note ne = this
          obtain e infos where jp: "job_page env cur job_url job_html (company_infos st1) = (e, infos)"
            by (cases "job_page env cur job_url job_html (company_infos st1)")
          have p2: "P (st1\<lparr>company_infos := infos\<rparr>)"
            using page[OF p1', of job_url job_html] jp by simp
          show ?thesis
          proof (cases e)
            case None
            then show ?thesis
              using below \<open>job_url \<notin> set (visited_job_urls st)\<close> f Some ne jp Cons.IH[OF p2]
              by simp
          next
            case (Some ex)
            then show ?thesis
              using below \<open>job_url \<notin> set (visited_job_urls st)\<close> f \<open>r = Some job_html\<close> ne jp p2
              by simp
          qed
        qed
      qed
    qed
  qed
qed

text \<open>
  An invariant of one turn of the outer loop: established by the listing fetch,
  kept by the registration of the identifiers of the page and by the job loop.
\<close>

lemma listing_page_invariant:
  assumes lfetch: "J (snd (fetch_in_run env Listing cur
                     (st\<lparr>visited_listing_urls := set_add (visited_listing_urls st) cur\<rparr>)))"
    and reg: "\<And>s html. J s \<Longrightarrow>
            J (s\<lparr>company_infos :=
                  register_ids (new_ids_of env (extract_cjlist_ids_from_html env html)
                    (company_infos s)) [] cur (company_infos s)\<rparr>)"
    and jfetch: "\<And>s job_url. J s \<Longrightarrow> job_url \<notin> set (visited_job_urls s) \<Longrightarrow>
            int (length (visited_job_urls s)) < max_job_pages \<Longrightarrow>
            J (snd (fetch_in_run env Job job_url
                 (s\<lparr>visited_job_urls := set_add (visited_job_urls s) job_url\<rparr>)))"
    and page: "\<And>s job_url job_html. J s \<Longrightarrow>
            J (s\<lparr>company_infos := snd (job_page env cur job_url job_html (company_infos s))\<rparr>)"
  shows "J (snd (listing_page env max_job_pages cur st))"
proof -
  let ?f = "fetch_in_run env Listing cur
              (st\<lparr>visited_listing_urls := set_add (visited_listing_urls st) cur\<rparr>)"
  obtain r st1 where f: "?f = (r, st1)" by (cases ?f)
  have j1: "J st1" using lfetch f by simp
  show ?thesis
  proof (cases r)
    case None
    then show ?thesis using f j1 by (simp add: listing_page_def)
  next
    case (Some html)
    show ?thesis
    proof (cases "html = []")
      case True
      then show ?thesis using f Some j1 by (simp add: listing_page_def)
    next
      case False
      let ?st2 = "st1\<lparr>company_infos :=
                  register_ids (new_ids_of env (extract_cjlist_ids_from_html env html)
                    (company_infos st1)) [] cur (company_infos st1)\<rparr>"
      have j2: "J ?st2" by (rule reg[OF j1])
      show ?thesis
      proof (cases "extract_job_links_from_listing_html env html cur")
        case (Inl e)
        then show ?thesis using f Some False j2 by (simp add: listing_page_def Let_def)
      next
        case (Inr job_links)
        note jl = this
        show ?thesis
        proof (cases "find_next_page_url env html cur")
          case (Inl e)
          then show ?thesis using f Some False jl j2 by (simp add: listing_page_def Let_def)
        next
          case (Inr next_url)
          have j3: "J (snd (job_loop env max_job_pages cur (set_iter env job_links) ?st2))"
            by (rule job_loop_invariant[where P = J, OF j2 jfetch page])
          obtain e st3 where jlp: "job_loop env max_job_pages cur (set_iter env job_links) ?st2 = (e, st3)"
            by (cases "job_loop env max_job_pages cur (set_iter env job_links) ?st2")
          have "J st3" using j3 jlp by simp
          then show ?thesis using f Some False jl Inr jlp
            by (cases e) (simp_all add: listing_page_def Let_def)
        qed
      qed
    qed
  qed
qed

text \<open>
  An invariant \<open>I n\<close> of the outer loop, where \<open>n\<close> is the number of listing pages
  counted so far.  The count at the end is at most the bound, unless the loop
  never ran; it has reached the bound when the loop ended for that reason.
\<close>

lemma crawl_loop_invariant:
  assumes init: "I listing_count st"
    and lfetch: "\<And>s cur n. I n s \<Longrightarrow> cur \<noteq> [] \<Longrightarrow> cur \<notin> set (visited_listing_urls s) \<Longrightarrow>
            int n < max_listing_pages \<Longrightarrow>
            I (Suc n) (snd (fetch_in_run env Listing cur
                 (s\<lparr>visited_listing_urls := set_add (visited_listing_urls s) cur\<rparr>)))"
    and reg: "\<And>s n html cur. I n s \<Longrightarrow>
            I n (s\<lparr>company_infos :=
                  register_ids (new_ids_of env (extract_cjlist_ids_from_html env html)
                    (company_infos s)) [] cur (company_infos s)\<rparr>)"
    and jfetch: "\<And>s n job_url. I n s \<Longrightarrow> job_url \<notin> set (visited_job_urls s) \<Longrightarrow>
            int (length (visited_job_urls s)) < max_job_pages \<Longrightarrow>
            I n (snd (fetch_in_run env Job job_url
                 (s\<lparr>visited_job_urls := set_add (visited_job_urls s) job_url\<rparr>)))"
    and page: "\<And>s n cur job_url job_html. I n s \<Longrightarrow>
            I n (s\<lparr>company_infos := snd (job_page env cur job_url job_html (company_infos s))\<rparr>)"
  shows "\<exists>n. I n (snd (crawl_loop env max_listing_pages max_job_pages listing_url listing_count st)) \<and>
             listing_count \<le> n \<and> (n = listing_count \<or> int n \<le> max_listing_pages) \<and>
             (fst (crawl_loop env max_listing_pages max_job_pages listing_url listing_count st)
                = PageBoundReached \<longrightarrow> max_listing_pages \<le> int n)"
  using assms
proof (induction env max_listing_pages max_job_pages listing_url listing_count st
    rule: crawl_loop.induct)
  case (1 env max_listing_pages max_job_pages listing_url listing_count st)
  note IH = "1.IH" and init = "1.prems"(1)
  let ?r = "crawl_loop env max_listing_pages max_job_pages listing_url listing_count st"
  have stay: "\<exists>n. I n st \<and> listing_count \<le> n \<and> (n = listing_count \<or> int n \<le> max_listing_pages)"
    using init by blast
  show ?case
  proof (cases listing_url)
    case None
    then show ?thesis using stay by simp
  next
    case (Some cur)
    show ?thesis
    proof (cases "cur = []")
      case True
      then show ?thesis using Some stay by simp
    next
      case False
      note ne = this
      show ?thesis
      proof (cases "max_listing_pages \<le> int listing_count")
        case True
        then show ?thesis using Some ne init by auto
      next
        case False
        note below = this
        show ?thesis
        proof (cases "cur \<in> set (visited_listing_urls st)")
          case True
          then show ?thesis using Some ne below stay by simp
        next
          case False
          note fresh = this
          have lt: "int listing_count < max_listing_pages" using below by simp
          have j: "I (Suc listing_count) (snd (listing_page env max_job_pages cur st))"
            by (rule listing_page_invariant[where J = "I (Suc listing_count)",
                  OF "1.prems"(2)[OF init ne fresh lt] "1.prems"(3) "1.prems"(4) "1.prems"(5)])
          obtain out st1 where lp: "listing_page env max_job_pages cur st = (out, st1)"
            by (cases "listing_page env max_job_pages cur st")
          have j1: "I (Suc listing_count) st1" using j lp by simp
          show ?thesis
          proof (cases out)
            case (Stopped why)
            have r: "?r = (why, st1)" using Some ne below fresh lp Stopped by simp
            have "I (Suc listing_count) st1 \<and> listing_count \<le> Suc listing_count \<and>
                  int (Suc listing_count) \<le> max_listing_pages"
              using j1 lt by simp
            moreover have "why = PageBoundReached \<longrightarrow> max_listing_pages \<le> int (Suc listing_count)"
            proof
              assume w: "why = PageBoundReached"
              have "fst (listing_page env max_job_pages cur st) \<noteq> Stopped PageBoundReached"
                by (auto simp: listing_page_def Let_def split: prod.splits option.splits sum.splits)
              then show "max_listing_pages \<le> int (Suc listing_count)"
                using lp Stopped w by simp
            qed
            ultimately show ?thesis unfolding r by auto
          next
            case (NextPage next_url)
            have r: "?r = crawl_loop env max_listing_pages max_job_pages next_url (Suc listing_count) st1"
              using Some ne below fresh lp NextPage by simp
            from IH[OF Some ne below fresh lp[symmetric] NextPage j1 "1.prems"(2) "1.prems"(3)
                "1.prems"(4) "1.prems"(5)]
            obtain n where n: "I n (snd (crawl_loop env max_listing_pages max_job_pages next_url (Suc listing_count) st1))"
              "Suc listing_count \<le> n" "n = Suc listing_count \<or> int n \<le> max_listing_pages"
              "fst (crawl_loop env max_listing_pages max_job_pages next_url (Suc listing_count) st1)
                = PageBoundReached \<longrightarrow> max_listing_pages \<le> int n"
              by blast
            have "int n \<le> max_listing_pages" using n(3) lt by auto
            then show ?thesis unfolding r using n by auto
          qed
        qed
      qed
    qed
  qed
qed

subsection \<open>The registry\<close>

lemma map_of_register_ids_other:
  "k \<notin> set new_ids \<Longrightarrow> map_of (register_ids new_ids job_url cur infos) k = map_of infos k"
  unfolding register_ids_def
  by (induction new_ids arbitrary: infos) (simp_all add: update_conv')

lemma new_ids_of_fresh:
  "cid \<in> set (new_ids_of env ids infos) \<Longrightarrow> map_of infos cid = None"
  by (simp add: new_ids_of_def)

lemma register_keeps_entries:
  "map_of infos k = Some i \<Longrightarrow>
   map_of (register_ids (new_ids_of env ids infos) job_url cur infos) k = Some i"
proof -
  assume a: "map_of infos k = Some i"
  then have "k \<notin> set (new_ids_of env ids infos)" using new_ids_of_fresh by fastforce
  then show ?thesis using a by (simp add: map_of_register_ids_other)
qed

lemma merge_company_at:
  "map_of infos cid = Some i \<Longrightarrow>
   map_of (merge_company cid c_url job_url cur infos) cid =
     Some (i\<lparr>company_url := c_url,
             source_job_url := (if source_job_url i = [] then job_url else source_job_url i),
             source_listing_url := (if source_listing_url i = [] then cur else source_listing_url i)\<rparr>)"
  by (simp add: merge_company_def Let_def update_conv')

lemma merge_company_other:
  "k \<noteq> cid \<Longrightarrow> map_of (merge_company cid c_url job_url cur infos) k = map_of infos k"
  by (simp add: merge_company_def Let_def update_conv')

lemma keeps_provenance_refl: "keeps_provenance infos infos"
  by (simp add: keeps_provenance_def)

lemma keeps_provenance_trans:
  "keeps_provenance a b \<Longrightarrow> keeps_provenance b c \<Longrightarrow> keeps_provenance a c"
  unfolding keeps_provenance_def by (metis (no_types, lifting))

lemma keeps_provenance_register:
  "keeps_provenance infos (register_ids (new_ids_of env ids infos) job_url cur infos)"
  unfolding keeps_provenance_def using register_keeps_entries by fastforce

lemma keeps_provenance_merge:
  "keeps_provenance infos (merge_company cid c_url job_url cur infos)"
  unfolding keeps_provenance_def
proof (intro allI impI)
  fix k i
  assume a: "map_of infos k = Some i"
  show "\<exists>j. map_of (merge_company cid c_url job_url cur infos) k = Some j \<and>
            company_id j = company_id i \<and>
            (source_job_url i \<noteq> [] \<longrightarrow> source_job_url j = source_job_url i) \<and>
            (source_listing_url i \<noteq> [] \<longrightarrow> source_listing_url j = source_listing_url i)"
  proof (cases "k = cid")
    case True
    then show ?thesis using merge_company_at[of infos cid i c_url job_url cur] a by simp
  next
    case False
    then show ?thesis using merge_company_other[of k cid c_url job_url cur infos] a by simp
  qed
qed

lemma job_page_cases:
  "snd (job_page env cur job_url job_html infos) =
     register_ids (new_ids_of env (extract_cjlist_ids_from_html env job_html) infos) job_url cur infos \<or>
   (\<exists>c_url parsed cid. urlparse env c_url = Inr parsed \<and>
      re_search (CJLIST_RE (re_digit env)) (path parsed) = Some cid \<and>
      snd (job_page env cur job_url job_html infos) =
        merge_company cid c_url job_url cur
          (register_ids (new_ids_of env (extract_cjlist_ids_from_html env job_html) infos)
             job_url cur infos))"
  by (auto simp: job_page_def Let_def split: sum.splits option.splits)

lemma keeps_provenance_job_page:
  "keeps_provenance infos (snd (job_page env cur job_url job_html infos))"
  using job_page_cases[of env cur job_url job_html infos]
  by (auto intro: keeps_provenance_register keeps_provenance_trans[OF keeps_provenance_register keeps_provenance_merge])

text \<open>A job page with a company link that names an employer ends in the merge.\<close>

lemma job_page_merges:
  assumes "extract_company_url_from_job_html env job_html job_url = Inr (Some c_url)"
    and "c_url \<noteq> []"
    and "urlparse env c_url = Inr parsed"
    and "re_search (CJLIST_RE (re_digit env)) (path parsed) = Some cid"
  shows "job_page env cur job_url job_html infos =
     (None, merge_company cid c_url job_url cur
        (register_ids (new_ids_of env (extract_cjlist_ids_from_html env job_html) infos)
           job_url cur infos))"
  using assms by (simp add: job_page_def Let_def)

lemma merge_company_url:
  "\<exists>j. map_of (merge_company cid c_url job_url cur infos) cid = Some j \<and> company_url j = c_url"
  by (simp add: merge_company_def Let_def update_conv')

lemma job_loop_single:
  assumes "\<not> max_job_pages \<le> int (length (visited_job_urls st))"
    and "job_url \<notin> set (visited_job_urls st)"
    and "fst (fetch_in_run env Job job_url
            (st\<lparr>visited_job_urls := set_add (visited_job_urls st) job_url\<rparr>)) = Some job_html"
    and "job_html \<noteq> []"
  shows "company_infos (snd (job_loop env max_job_pages cur [job_url] st)) =
     snd (job_page env cur job_url job_html (company_infos st))"
proof -
  obtain st1 where f: "fetch_in_run env Job job_url
      (st\<lparr>visited_job_urls := set_add (visited_job_urls st) job_url\<rparr>) = (Some job_html, st1)"
    using assms(3) by (cases "fetch_in_run env Job job_url
      (st\<lparr>visited_job_urls := set_add (visited_job_urls st) job_url\<rparr>)") simp
  have c: "company_infos st1 = company_infos st"
    using fetch_in_run_fields[of env Job job_url
        "st\<lparr>visited_job_urls := set_add (visited_job_urls st) job_url\<rparr>"] f by simp
  show ?thesis
    using assms(1,2,4) f c
    by (cases "job_page env cur job_url job_html (company_infos st)")
       (simp split: option.splits)
qed

lemma keeps_provenance_job_loop:
  "keeps_provenance (company_infos st)
     (company_infos (snd (job_loop env max_job_pages cur jobs st)))"
proof (rule job_loop_invariant[where P = "\<lambda>s. keeps_provenance (company_infos st) (company_infos s)"])
  show "keeps_provenance (company_infos st) (company_infos st)" by (rule keeps_provenance_refl)
next
  fix s :: crawl_state and job_url
  assume "keeps_provenance (company_infos st) (company_infos s)"
  then show "keeps_provenance (company_infos st)
      (company_infos (snd (fetch_in_run env Job job_url
         (s\<lparr>visited_job_urls := set_add (visited_job_urls s) job_url\<rparr>))))"
    by simp
next
  fix s :: crawl_state and job_url job_html
  assume a: "keeps_provenance (company_infos st) (company_infos s)"
  show "keeps_provenance (company_infos st)
      (company_infos (s\<lparr>company_infos := snd (job_page env cur job_url job_html (company_infos s))\<rparr>))"
    using keeps_provenance_trans[OF a keeps_provenance_job_page] by simp
qed

lemma keeps_provenance_crawl_loop:
  "keeps_provenance (company_infos st)
     (company_infos (snd (crawl_loop env max_listing_pages max_job_pages listing_url listing_count st)))"
proof -
  let ?I = "\<lambda>(n::nat) s. keeps_provenance (company_infos st) (company_infos s)"
  have "\<exists>n. ?I n (snd (crawl_loop env max_listing_pages max_job_pages listing_url listing_count st)) \<and>
             listing_count \<le> n \<and> (n = listing_count \<or> int n \<le> max_listing_pages) \<and>
             (fst (crawl_loop env max_listing_pages max_job_pages listing_url listing_count st)
                = PageBoundReached \<longrightarrow> max_listing_pages \<le> int n)"
  proof (rule crawl_loop_invariant[where I = ?I])
    show "keeps_provenance (company_infos st) (company_infos st)" by (rule keeps_provenance_refl)
  next
    fix s :: crawl_state and cur and n :: nat
    assume "keeps_provenance (company_infos st) (company_infos s)"
    then show "keeps_provenance (company_infos st)
        (company_infos (snd (fetch_in_run env Listing cur
           (s\<lparr>visited_listing_urls := set_add (visited_listing_urls s) cur\<rparr>))))"
      by simp
  next
    fix s :: crawl_state and html cur and n :: nat
    assume a: "keeps_provenance (company_infos st) (company_infos s)"
    show "keeps_provenance (company_infos st)
        (company_infos (s\<lparr>company_infos :=
            register_ids (new_ids_of env (extract_cjlist_ids_from_html env html) (company_infos s))
              [] cur (company_infos s)\<rparr>))"
      using keeps_provenance_trans[OF a keeps_provenance_register] by simp
  next
    fix s :: crawl_state and job_url and n :: nat
    assume "keeps_provenance (company_infos st) (company_infos s)"
    then show "keeps_provenance (company_infos st)
        (company_infos (snd (fetch_in_run env Job job_url
           (s\<lparr>visited_job_urls := set_add (visited_job_urls s) job_url\<rparr>))))"
      by simp
  next
    fix s :: crawl_state and cur job_url job_html and n :: nat
    assume a: "keeps_provenance (company_infos st) (company_infos s)"
    show "keeps_provenance (company_infos st)
        (company_infos (s\<lparr>company_infos := snd (job_page env cur job_url job_html (company_infos s))\<rparr>))"
      using keeps_provenance_trans[OF a keeps_provenance_job_page] by simp
  qed
  then show ?thesis by blast
qed

text \<open>
  C2.  A merge for an identifier that is in the registry overwrites the company
  URL of its entry with the URL just observed, fills the first-seen job URL and
  listing URL only where they are empty, and leaves every other entry as it is.
  A registration leaves every existing entry as it is.  A job page whose company
  link gives a URL that is not empty and whose path names the employer \<open>cid\<close>
  ends in that merge, after the registration of the identifiers found on the page:
  afterwards the entry of \<open>cid\<close> has the observed URL as its company URL, and when
  \<open>cid\<close> was in the registry before, its entry has the former first-seen job URL and
  listing URL wherever they were not empty.  The job loop hands the registry to
  the job page and keeps what it returns.  Hence through a job page, through the
  whole job loop and through the whole outer loop, every entry stays in the
  registry and a first-seen job URL or listing URL that is not empty never
  changes.
\<close>

theorem registry_merge_write_once:
  "(map_of infos cid = Some i \<longrightarrow>
      map_of (merge_company cid c_url job_url cur infos) cid =
        Some (i\<lparr>company_url := c_url,
                source_job_url := (if source_job_url i = [] then job_url else source_job_url i),
                source_listing_url :=
                  (if source_listing_url i = [] then cur else source_listing_url i)\<rparr>) \<and>
      (\<forall>k. k \<noteq> cid \<longrightarrow>
         map_of (merge_company cid c_url job_url cur infos) k = map_of infos k)) \<and>
   (map_of infos cid = Some i \<longrightarrow>
      map_of (register_ids (new_ids_of env ids infos) job_url cur infos) cid = Some i) \<and>
   (extract_company_url_from_job_html env job_html job_url = Inr (Some c_url) \<and> c_url \<noteq> [] \<and>
    urlparse env c_url = Inr parsed \<and>
    re_search (CJLIST_RE (re_digit env)) (path parsed) = Some cid \<longrightarrow>
      job_page env cur job_url job_html infos =
        (None, merge_company cid c_url job_url cur
           (register_ids (new_ids_of env (extract_cjlist_ids_from_html env job_html) infos)
              job_url cur infos)) \<and>
      (\<exists>j. map_of (snd (job_page env cur job_url job_html infos)) cid = Some j \<and>
           company_url j = c_url) \<and>
      (map_of infos cid = Some i \<longrightarrow>
         map_of (snd (job_page env cur job_url job_html infos)) cid =
           Some (i\<lparr>company_url := c_url,
                   source_job_url := (if source_job_url i = [] then job_url else source_job_url i),
                   source_listing_url :=
                     (if source_listing_url i = [] then cur else source_listing_url i)\<rparr>))) \<and>
   (\<not> max_job_pages \<le> int (length (visited_job_urls st)) \<and>
    job_url \<notin> set (visited_job_urls st) \<and>
    fst (fetch_in_run env Job job_url
           (st\<lparr>visited_job_urls := set_add (visited_job_urls st) job_url\<rparr>)) = Some job_html \<and>
    job_html \<noteq> [] \<longrightarrow>
      company_infos (snd (job_loop env max_job_pages cur [job_url] st)) =
        snd (job_page env cur job_url job_html (company_infos st))) \<and>
   keeps_provenance infos (snd (job_page env cur job_url job_html infos)) \<and>
   keeps_provenance (company_infos st)
     (company_infos (snd (job_loop env max_job_pages cur jobs st))) \<and>
   keeps_provenance (company_infos st)
     (company_infos (snd (crawl_loop env max_listing_pages max_job_pages listing_url
        listing_count st)))"
proof (intro conjI impI allI)
  assume a: "map_of infos cid = Some i"
  show "map_of (merge_company cid c_url job_url cur infos) cid =
        Some (i\<lparr>company_url := c_url,
                source_job_url := (if source_job_url i = [] then job_url else source_job_url i),
                source_listing_url :=
                  (if source_listing_url i = [] then cur else source_listing_url i)\<rparr>)"
    by (rule merge_company_at[OF a])
  show "map_of (register_ids (new_ids_of env ids infos) job_url cur infos) cid = Some i"
    by (rule register_keeps_entries[OF a])
next
  fix k
  assume "k \<noteq> cid"
  then show "map_of (merge_company cid c_url job_url cur infos) k = map_of infos k"
    by (rule merge_company_other)
next
  assume h: "extract_company_url_from_job_html env job_html job_url = Inr (Some c_url) \<and>
    c_url \<noteq> [] \<and> urlparse env c_url = Inr parsed \<and>
    re_search (CJLIST_RE (re_digit env)) (path parsed) = Some cid"
  have m: "job_page env cur job_url job_html infos =
        (None, merge_company cid c_url job_url cur
           (register_ids (new_ids_of env (extract_cjlist_ids_from_html env job_html) infos)
              job_url cur infos))"
    by (rule job_page_merges[OF h[THEN conjunct1] h[THEN conjunct2, THEN conjunct1]
          h[THEN conjunct2, THEN conjunct2, THEN conjunct1]
          h[THEN conjunct2, THEN conjunct2, THEN conjunct2]])
  show "job_page env cur job_url job_html infos =
        (None, merge_company cid c_url job_url cur
           (register_ids (new_ids_of env (extract_cjlist_ids_from_html env job_html) infos)
              job_url cur infos))"
    by (rule m)
  show "\<exists>j. map_of (snd (job_page env cur job_url job_html infos)) cid = Some j \<and>
           company_url j = c_url"
    unfolding m snd_conv by (rule merge_company_url)
  show "map_of (snd (job_page env cur job_url job_html infos)) cid =
           Some (i\<lparr>company_url := c_url,
                   source_job_url := (if source_job_url i = [] then job_url else source_job_url i),
                   source_listing_url :=
                     (if source_listing_url i = [] then cur else source_listing_url i)\<rparr>)"
    if a: "map_of infos cid = Some i"
    unfolding m snd_conv by (rule merge_company_at[OF register_keeps_entries[OF a]])
next
  assume g: "\<not> max_job_pages \<le> int (length (visited_job_urls st)) \<and>
    job_url \<notin> set (visited_job_urls st) \<and>
    fst (fetch_in_run env Job job_url
           (st\<lparr>visited_job_urls := set_add (visited_job_urls st) job_url\<rparr>)) = Some job_html \<and>
    job_html \<noteq> []"
  show "company_infos (snd (job_loop env max_job_pages cur [job_url] st)) =
        snd (job_page env cur job_url job_html (company_infos st))"
    by (rule job_loop_single[OF g[THEN conjunct1] g[THEN conjunct2, THEN conjunct1]
          g[THEN conjunct2, THEN conjunct2, THEN conjunct1]
          g[THEN conjunct2, THEN conjunct2, THEN conjunct2]])
next
  show "keeps_provenance infos (snd (job_page env cur job_url job_html infos))"
    by (rule keeps_provenance_job_page)
  show "keeps_provenance (company_infos st)
     (company_infos (snd (job_loop env max_job_pages cur jobs st)))"
    by (rule keeps_provenance_job_loop)
  show "keeps_provenance (company_infos st)
     (company_infos (snd (crawl_loop env max_listing_pages max_job_pages listing_url
        listing_count st)))"
    by (rule keeps_provenance_crawl_loop)
qed

text \<open>
  Employer 101 was registered from the listing page without a job URL.  The first
  merge overwrites the URL and sets the job URL; the second merge, from another
  job page, overwrites the URL again and leaves the job URL and the listing URL.
  On the example site whose job page links to \<open>/kanto/cjlist101/\<close>, the job page,
  the job loop and the whole run replace the canonical URL of employer 101 by the
  observed one, set its job URL and leave its listing URL.
\<close>

theorem registry_merge_write_once_witness:
  "map_of (merge_company (u ''101'') seen_url1 job_url0 listing_url1 registry0) (u ''101'') =
     Some \<lparr>company_id = u ''101'', company_url = seen_url1, source_job_url = job_url0,
           source_listing_url = listing_url0\<rparr> \<and>
   map_of (merge_company (u ''101'') seen_url2 job_url1 listing_url1
            (merge_company (u ''101'') seen_url1 job_url0 listing_url1 registry0)) (u ''101'') =
     Some \<lparr>company_id = u ''101'', company_url = seen_url2, source_job_url = job_url0,
           source_listing_url = listing_url0\<rparr> \<and>
   extract_company_url_from_job_html env1 (u ''JOB'') job_url0 = Inr (Some seen_url1) \<and>
   seen_url1 \<noteq> canonical_url (u ''101'') \<and>
   map_of (snd (job_page env1 listing_url1 job_url0 (u ''JOB'') registry0)) (u ''101'') =
     Some \<lparr>company_id = u ''101'', company_url = seen_url1, source_job_url = job_url0,
           source_listing_url = listing_url0\<rparr> \<and>
   map_of (company_infos (snd (job_loop env1 100 listing_url1 [job_url0]
             (initial_state\<lparr>company_infos := registry0\<rparr>)))) (u ''101'') =
     Some \<lparr>company_id = u ''101'', company_url = seen_url1, source_job_url = job_url0,
           source_listing_url = listing_url0\<rparr> \<and>
   company_infos (snd (crawl_run env1 listing_url0 100 100)) =
     [(u ''101'', \<lparr>company_id = u ''101'', company_url = seen_url1, source_job_url = job_url0,
                   source_listing_url = listing_url0\<rparr>),
      (u ''102'', \<lparr>company_id = u ''102'', company_url = canonical_url (u ''102''),
                   source_job_url = [], source_listing_url = listing_url0\<rparr>)]"
proof -
  let ?i0 = "\<lparr>company_id = u ''101'', company_url = canonical_url (u ''101''),
              source_job_url = [], source_listing_url = listing_url0\<rparr>"
  let ?i1 = "\<lparr>company_id = u ''101'', company_url = seen_url1, source_job_url = job_url0,
              source_listing_url = listing_url0\<rparr>"
  let ?r1 = "merge_company (u ''101'') seen_url1 job_url0 listing_url1 registry0"
  let ?p = "\<lparr>scheme = u ''https'', netloc = u ''www.baitoru.com'',
             path = u ''/kanto/cjlist101/'', params = [], query = [], fragment = []\<rparr>"
  let ?s0 = "initial_state\<lparr>company_infos := registry0\<rparr>"
  have l0: "listing_url0 \<noteq> []" by (simp add: listing_url0_def u_def)
  have j0: "job_url0 \<noteq> []" by (simp add: job_url0_def u_def)
  have h0: "map_of registry0 (u ''101'') = Some ?i0" by (simp add: registry0_def)
  have m1: "map_of ?r1 (u ''101'') = Some ?i1"
    using mp[OF registry_merge_write_once[where infos = registry0 and cid = "u ''101''"
          and i = ?i0 and c_url = seen_url1 and job_url = job_url0 and cur = listing_url1,
          THEN conjunct1] h0, THEN conjunct1] l0
    by simp
  have m2: "map_of (merge_company (u ''101'') seen_url2 job_url1 listing_url1 ?r1) (u ''101'') =
      Some \<lparr>company_id = u ''101'', company_url = seen_url2, source_job_url = job_url0,
           source_listing_url = listing_url0\<rparr>"
    using mp[OF registry_merge_write_once[where infos = ?r1 and cid = "u ''101''"
          and i = ?i1 and c_url = seen_url2 and job_url = job_url1 and cur = listing_url1,
          THEN conjunct1] m1, THEN conjunct1] l0 j0
    by simp
  have e1: "extract_company_url_from_job_html env1 (u ''JOB'') job_url0 = Inr (Some seen_url1)"
    by code_simp
  have e2: "seen_url1 \<noteq> []" by (simp add: seen_url1_def u_def)
  have e3: "urlparse env1 seen_url1 = Inr ?p" by code_simp
  have e4: "re_search (CJLIST_RE (re_digit env1)) (path ?p) = Some (u ''101'')" by code_simp
  have e5: "seen_url1 \<noteq> canonical_url (u ''101'')" by code_simp
  note t = registry_merge_write_once[where env = env1 and job_html = "u ''JOB''"
      and job_url = job_url0 and c_url = seen_url1 and parsed = ?p and cid = "u ''101''"
      and cur = listing_url1 and infos = registry0 and i = ?i0 and st = ?s0
      and max_job_pages = 100]
  note tp = mp[OF t[THEN conjunct2, THEN conjunct2, THEN conjunct1]
      conjI[OF e1 conjI[OF e2 conjI[OF e3 e4]]]]
  have p1: "map_of (snd (job_page env1 listing_url1 job_url0 (u ''JOB'') registry0)) (u ''101'') =
      Some ?i1"
    using mp[OF tp[THEN conjunct2, THEN conjunct2] h0] l0 by simp
  have g1: "\<not> (100::int) \<le> int (length (visited_job_urls ?s0))"
    by (simp add: initial_state_def)
  have g2: "job_url0 \<notin> set (visited_job_urls ?s0)" by (simp add: initial_state_def)
  have g3: "fst (fetch_in_run env1 Job job_url0
           (?s0\<lparr>visited_job_urls := set_add (visited_job_urls ?s0) job_url0\<rparr>)) = Some (u ''JOB'')"
    by code_simp
  have g4: "u ''JOB'' \<noteq> []" by (simp add: u_def)
  have c0: "company_infos ?s0 = registry0" by simp
  have q1: "company_infos (snd (job_loop env1 100 listing_url1 [job_url0] ?s0)) =
      snd (job_page env1 listing_url1 job_url0 (u ''JOB'') registry0)"
    using mp[OF t[THEN conjunct2, THEN conjunct2, THEN conjunct2, THEN conjunct1]
        conjI[OF g1 conjI[OF g2 conjI[OF g3 g4]]]]
    unfolding c0 .
  have p2: "map_of (company_infos (snd (job_loop env1 100 listing_url1 [job_url0] ?s0)))
      (u ''101'') = Some ?i1"
    unfolding q1 by (rule p1)
  have w: "company_infos (snd (crawl_run env1 listing_url0 100 100)) =
     [(u ''101'', ?i1),
      (u ''102'', \<lparr>company_id = u ''102'', company_url = canonical_url (u ''102''),
                   source_job_url = [], source_listing_url = listing_url0\<rparr>)]"
    by code_simp
  show ?thesis
    by (intro conjI) (rule m1 m2 e1 e5 p1 p2 w)+
qed

subsection \<open>Identifiers are digit strings\<close>

lemma registry_ok_update:
  "registry_ok env infos \<Longrightarrow> digit_string env k \<Longrightarrow> company_id v = k \<Longrightarrow>
   registry_ok env (AList.update k v infos)"
  unfolding registry_ok_def by (induction infos) auto

lemma registry_ok_register:
  "registry_ok env infos \<Longrightarrow> list_all (digit_string env) new_ids \<Longrightarrow>
   registry_ok env (register_ids new_ids job_url cur infos)"
  unfolding register_ids_def
  by (induction new_ids arbitrary: infos) (simp_all add: registry_ok_update)

lemma new_ids_digits:
  assumes "\<forall>xs. set (set_iter env xs) \<subseteq> set xs"
  shows "list_all (digit_string env) (new_ids_of env (extract_cjlist_ids_from_html env html) infos)"
proof -
  have "set (new_ids_of env (extract_cjlist_ids_from_html env html) infos)
      \<subseteq> set (extract_cjlist_ids_from_html env html)"
    using assms by (auto simp: new_ids_of_def)
  then show ?thesis
    using extract_cjlist_ids_digits by (auto simp: list_all_iff)
qed

lemma registry_ok_lookup:
  "registry_ok env infos \<Longrightarrow> map_of infos k = Some i \<Longrightarrow> company_id i = k"
  unfolding registry_ok_def by (auto simp: list_all_iff dest: map_of_SomeD)

lemma registry_ok_merge:
  assumes "registry_ok env infos" and "digit_string env cid"
  shows "registry_ok env (merge_company cid c_url job_url cur infos)"
proof -
  have "company_id (case map_of infos cid of
            Some i \<Rightarrow> i
          | None \<Rightarrow> \<lparr>company_id = cid, company_url = c_url, source_job_url = job_url,
                      source_listing_url = cur\<rparr>) = cid"
    using registry_ok_lookup[OF assms(1)] by (cases "map_of infos cid") simp_all
  then show ?thesis
    unfolding merge_company_def Let_def
    by (intro registry_ok_update[OF assms]) simp
qed

lemma registry_ok_job_page:
  assumes "\<forall>xs. set (set_iter env xs) \<subseteq> set xs" and "registry_ok env infos"
  shows "registry_ok env (snd (job_page env cur job_url job_html infos))"
proof -
  have r: "registry_ok env
      (register_ids (new_ids_of env (extract_cjlist_ids_from_html env job_html) infos) job_url cur infos)"
    by (rule registry_ok_register[OF assms(2) new_ids_digits[OF assms(1)]])
  have m: "registry_ok env (merge_company cid c_url job_url cur
      (register_ids (new_ids_of env (extract_cjlist_ids_from_html env job_html) infos) job_url cur infos))"
    if "re_search (CJLIST_RE (re_digit env)) p = Some cid" for cid c_url p
  proof -
    from re_search_SomeD[OF that] obtain t where t: "CJLIST_RE (re_digit env) t = Some cid" ..
    have "digit_string env cid"
      using CJLIST_RE_digits[OF t] by (simp add: digit_string_def)
    then show ?thesis by (rule registry_ok_merge[OF r])
  qed
  show ?thesis
    unfolding job_page_def Let_def
    by (simp add: r m split: sum.splits option.splits)
qed

lemma registry_ok_crawl_loop:
  assumes it: "\<forall>xs. set (set_iter env xs) \<subseteq> set xs" and ok: "registry_ok env (company_infos st)"
  shows "registry_ok env
     (company_infos (snd (crawl_loop env max_listing_pages max_job_pages listing_url listing_count st)))"
proof -
  let ?I = "\<lambda>(n::nat) s. registry_ok env (company_infos s)"
  have "\<exists>n. ?I n (snd (crawl_loop env max_listing_pages max_job_pages listing_url listing_count st)) \<and>
             listing_count \<le> n \<and> (n = listing_count \<or> int n \<le> max_listing_pages) \<and>
             (fst (crawl_loop env max_listing_pages max_job_pages listing_url listing_count st)
                = PageBoundReached \<longrightarrow> max_listing_pages \<le> int n)"
  proof (rule crawl_loop_invariant[where I = ?I])
    show "registry_ok env (company_infos st)" by (rule ok)
  next
    fix s :: crawl_state and cur and n :: nat
    assume "registry_ok env (company_infos s)"
    then show "registry_ok env
        (company_infos (snd (fetch_in_run env Listing cur
           (s\<lparr>visited_listing_urls := set_add (visited_listing_urls s) cur\<rparr>))))"
      by simp
  next
    fix s :: crawl_state and html cur and n :: nat
    assume a: "registry_ok env (company_infos s)"
    show "registry_ok env
        (company_infos (s\<lparr>company_infos :=
            register_ids (new_ids_of env (extract_cjlist_ids_from_html env html) (company_infos s))
              [] cur (company_infos s)\<rparr>))"
      using registry_ok_register[OF a new_ids_digits[OF it]] by simp
  next
    fix s :: crawl_state and job_url and n :: nat
    assume "registry_ok env (company_infos s)"
    then show "registry_ok env
        (company_infos (snd (fetch_in_run env Job job_url
           (s\<lparr>visited_job_urls := set_add (visited_job_urls s) job_url\<rparr>))))"
      by simp
  next
    fix s :: crawl_state and cur job_url job_html and n :: nat
    assume a: "registry_ok env (company_infos s)"
    show "registry_ok env
        (company_infos (s\<lparr>company_infos := snd (job_page env cur job_url job_html (company_infos s))\<rparr>))"
      using registry_ok_job_page[OF it a] by simp
  qed
  then show ?thesis by blast
qed

text \<open>
  C10.  Every identifier returned by \<open>extract_cjlist_ids_from_html\<close> is a non-empty
  string of characters of the class \<open>\d\<close>.  Provided that iterating a set yields
  only elements of the set, every key of the registry at the end of a run is such
  a string and equals the \<open>company_id\<close> of its entry, and so is the \<open>company_id\<close> of
  every record that \<open>crawl_baitoru_company_ids\<close> returns.
\<close>

theorem cjlist_ids_are_digit_strings:
  assumes "\<forall>xs. set (set_iter env xs) \<subseteq> set xs"
  shows "(\<forall>cid\<in>set (extract_cjlist_ids_from_html env html). digit_string env cid) \<and>
         (\<forall>(k, i)\<in>set (company_infos
              (snd (crawl_run env start_listing_url max_listing_pages max_job_pages))).
            digit_string env k \<and> company_id i = k) \<and>
         (\<forall>infos. crawl_baitoru_company_ids env start_listing_url max_listing_pages max_job_pages
              = Inr infos \<longrightarrow>
            (\<forall>i\<in>set infos. digit_string env (company_id i)))"
proof -
  have ok: "registry_ok env (company_infos
              (snd (crawl_run env start_listing_url max_listing_pages max_job_pages)))"
    unfolding crawl_run_def
    by (rule registry_ok_crawl_loop[OF assms]) (simp add: initial_state_def registry_ok_def)
  have keys: "\<forall>(k, i)\<in>set (company_infos
              (snd (crawl_run env start_listing_url max_listing_pages max_job_pages))).
            digit_string env k \<and> company_id i = k"
    using ok by (simp add: registry_ok_def list_all_iff)
  have recs: "\<forall>i\<in>set infos. digit_string env (company_id i)"
    if "crawl_baitoru_company_ids env start_listing_url max_listing_pages max_job_pages = Inr infos"
    for infos
  proof -
    from that have "infos = map snd (company_infos
              (snd (crawl_run env start_listing_url max_listing_pages max_job_pages)))"
      by (auto simp: crawl_baitoru_company_ids_def split: prod.splits stop.splits)
    then show ?thesis using keys by fastforce
  qed
  show ?thesis
    using extract_cjlist_ids_digits keys recs by blast
qed


text \<open>The run over the example site returns the employers 101, 102 and 103.\<close>

theorem cjlist_ids_are_digit_strings_witness:
  "extract_cjlist_ids_from_html env0 (u ''LISTING'') = [u ''101'', u ''102''] \<and>
   digit_string env0 (u ''101'') \<and> digit_string env0 (u ''102'') \<and>
   crawl_baitoru_company_ids env0 listing_url0 100 100 =
     Inr [\<lparr>company_id = u ''101'', company_url = canonical_url (u ''101''), source_job_url = [],
           source_listing_url = listing_url0\<rparr>,
          \<lparr>company_id = u ''102'', company_url = canonical_url (u ''102''), source_job_url = [],
           source_listing_url = listing_url0\<rparr>,
          \<lparr>company_id = u ''103'', company_url = canonical_url (u ''103''),
           source_job_url = job_url0, source_listing_url = listing_url0\<rparr>] \<and>
   digit_string env0 (u ''103'')"
proof -
  have it: "\<forall>xs. set (set_iter env0 xs) \<subseteq> set xs"
    by (simp add: env0_def example_env_def)
  have e: "extract_cjlist_ids_from_html env0 (u ''LISTING'') = [u ''101'', u ''102'']"
    by code_simp
  have r: "crawl_baitoru_company_ids env0 listing_url0 100 100 =
     Inr [\<lparr>company_id = u ''101'', company_url = canonical_url (u ''101''), source_job_url = [],
           source_listing_url = listing_url0\<rparr>,
          \<lparr>company_id = u ''102'', company_url = canonical_url (u ''102''), source_job_url = [],
           source_listing_url = listing_url0\<rparr>,
          \<lparr>company_id = u ''103'', company_url = canonical_url (u ''103''),
           source_job_url = job_url0, source_listing_url = listing_url0\<rparr>]"
    by code_simp
  note t = cjlist_ids_are_digit_strings[OF it, of "u ''LISTING''" listing_url0 100 100]
  have "\<forall>cid\<in>set [u ''101'', u ''102'']. digit_string env0 cid"
    using t[THEN conjunct1] unfolding e .
  then have d: "digit_string env0 (u ''101'')" "digit_string env0 (u ''102'')" by simp_all
  have "digit_string env0 (company_id \<lparr>company_id = u ''103'', company_url = canonical_url (u ''103''),
           source_job_url = job_url0, source_listing_url = listing_url0\<rparr>)"
    by (rule t[THEN conjunct2, THEN conjunct2, rule_format, OF r]) simp
  then have d3: "digit_string env0 (u ''103'')" by simp
  show ?thesis
    by (intro conjI e d r d3)
qed

subsection \<open>Bounds on the pages fetched\<close>







subsection \<open>One turn of the outer loop\<close>







section \<open>Properties of \<open>save_to_csv\<close>\<close>

lemma length_FIELDS: "length FIELDS = 15"
  by (simp add: FIELDS_def)

lemma distinct_FIELDS: "distinct FIELDS"
  by (simp add: FIELDS_def)

lemma map_of_graph:
  "map_of (map (\<lambda>k. (k, g k)) ks) f = (if f \<in> set ks then Some (g f) else None)"
  by (induction ks) auto

lemma cell_of_row:
  assumes "f \<in> set FIELDS"
  shows "(case map_of (safe_row row) f of None \<Rightarrow> [] | Some None \<Rightarrow> [] | Some (Some s) \<Rightarrow> s) =
         (case row f of Some (Some v) \<Rightarrow> v | _ \<Rightarrow> [])"
proof -
  have "map_of (safe_row row) f =
      Some (if dict_get row f = None then Some [] else dict_get_default row f (Some []))"
    unfolding safe_row_def map_of_graph using assms by simp
  then show ?thesis
    by (simp add: dict_get_def dict_get_default_def split: option.splits)
qed

lemma writerow_safe_row:
  "writerow (safe_row row) = map (\<lambda>f. case row f of Some (Some v) \<Rightarrow> v | _ \<Rightarrow> []) FIELDS"
  unfolding writerow_def by (rule map_cong) (simp_all add: cell_of_row)

lemma map_of_zip_map:
  "distinct ks \<Longrightarrow> f \<in> set ks \<Longrightarrow> map_of (zip ks (map g ks)) f = Some (g f)"
  by (induction ks) auto

text \<open>
  C8.  Given an empty collection, \<open>save_to_csv\<close> prints the warning and leaves every
  file as it was.  Given a non-empty collection it writes, under the header
  \<open>FIELDS\<close>, exactly one line per record, each of fifteen cells; the cell of a field
  is the record's string when the record has one, and the empty string when the
  key is missing or holds \<open>None\<close>; reading the table back gives, for every field
  that was present, the value that was written.
\<close>

theorem save_to_csv_table:
  "save_to_csv [] filepath fs = (fs, [WarnRowsEmpty]) \<and>
   (rows \<noteq> [] \<longrightarrow>
     (\<exists>data.
        fst (save_to_csv rows filepath fs) filepath = Some (FIELDS # data) \<and>
        snd (save_to_csv rows filepath fs) = [] \<and>
        length data = length rows \<and>
        (\<forall>i<length rows.
           length (data ! i) = 15 \<and>
           (\<forall>j<15. data ! i ! j =
              (case (rows ! i) (FIELDS ! j) of Some (Some v) \<Rightarrow> v | _ \<Rightarrow> [])) \<and>
           (\<forall>f\<in>set FIELDS. \<forall>v. (rows ! i) f = Some (Some v) \<longrightarrow>
              (reparse (FIELDS # data) ! i) f = Some v))))"
proof (intro conjI impI)
  show "save_to_csv [] filepath fs = (fs, [WarnRowsEmpty])"
    by (simp add: save_to_csv_def)
next
  assume ne: "rows \<noteq> []"
  let ?cell = "\<lambda>row f. (case row f of Some (Some v) \<Rightarrow> v | _ \<Rightarrow> ([]::ustr))"
  let ?data = "map (\<lambda>row. map (?cell row) FIELDS) rows"
  have tbl: "fst (save_to_csv rows filepath fs) filepath = Some (FIELDS # ?data)"
    using ne by (simp add: save_to_csv_def writerow_safe_row)
  have pr: "snd (save_to_csv rows filepath fs) = []"
    using ne by (simp add: save_to_csv_def)
  have each: "length (?data ! i) = 15 \<and>
      (\<forall>j<15. ?data ! i ! j = ?cell (rows ! i) (FIELDS ! j)) \<and>
      (\<forall>f\<in>set FIELDS. \<forall>v. (rows ! i) f = Some (Some v) \<longrightarrow>
         (reparse (FIELDS # ?data) ! i) f = Some v)"
    if i: "i < length rows" for i
  proof (intro conjI allI impI ballI)
    show "length (?data ! i) = 15" using i by (simp add: length_FIELDS)
  next
    fix j :: nat
    assume "j < 15"
    then show "?data ! i ! j = ?cell (rows ! i) (FIELDS ! j)"
      using i by (simp add: length_FIELDS)
  next
    fix f v
    assume f: "f \<in> set FIELDS" and v: "(rows ! i) f = Some (Some v)"
    have "(reparse (FIELDS # ?data) ! i) f = map_of (zip FIELDS (map (?cell (rows ! i)) FIELDS)) f"
      using i by (simp add: reparse_def)
    also have "\<dots> = Some (?cell (rows ! i) f)"
      by (rule map_of_zip_map[OF distinct_FIELDS f])
    finally show "(reparse (FIELDS # ?data) ! i) f = Some v"
      using v by simp
  qed
  show "\<exists>data.
        fst (save_to_csv rows filepath fs) filepath = Some (FIELDS # data) \<and>
        snd (save_to_csv rows filepath fs) = [] \<and>
        length data = length rows \<and>
        (\<forall>i<length rows.
           length (data ! i) = 15 \<and>
           (\<forall>j<15. data ! i ! j =
              (case (rows ! i) (FIELDS ! j) of Some (Some v) \<Rightarrow> v | _ \<Rightarrow> [])) \<and>
           (\<forall>f\<in>set FIELDS. \<forall>v. (rows ! i) f = Some (Some v) \<longrightarrow>
              (reparse (FIELDS # data) ! i) f = Some v))"
  proof (rule exI[of _ ?data], intro conjI)
    show "fst (save_to_csv rows filepath fs) filepath = Some (FIELDS # ?data)" by (rule tbl)
    show "snd (save_to_csv rows filepath fs) = []" by (rule pr)
    show "length ?data = length rows" by simp
    show "\<forall>i<length rows.
      length (?data ! i) = 15 \<and>
      (\<forall>j<15. ?data ! i ! j = ?cell (rows ! i) (FIELDS ! j)) \<and>
      (\<forall>f\<in>set FIELDS. \<forall>v. (rows ! i) f = Some (Some v) \<longrightarrow>
         (reparse (FIELDS # ?data) ! i) f = Some v)"
      using each by blast
  qed
qed

text \<open>
  Two records written to an empty file system: the name of the first record is
  written and read back unchanged, its \<open>None\<close> phone is the empty cell, and the
  second record's address is in the second line.
\<close>

theorem save_to_csv_table_witness:
  "save_to_csv [] (u ''company_data.csv'') (\<lambda>p. None) = ((\<lambda>p. None), [WarnRowsEmpty]) \<and>
   (\<exists>data.
      fst (save_to_csv [example_row1, example_row2] (u ''company_data.csv'') (\<lambda>p. None))
        (u ''company_data.csv'') = Some (FIELDS # data) \<and>
      length data = 2 \<and>
      length (data ! 0) = 15 \<and>
      data ! 0 ! 2 = u ''ACME'' \<and>
      data ! 0 ! 3 = [] \<and>
      data ! 1 ! 5 = u ''Chiba'' \<and>
      (reparse (FIELDS # data) ! 0) (FIELDS ! 2) = Some (u ''ACME''))"
proof -
  let ?rows = "[example_row1, example_row2]"
  let ?p = "u ''company_data.csv''"
  have ne: "?rows \<noteq> []" by simp
  from save_to_csv_table[of ?p "\<lambda>p. None" ?rows] ne
  obtain data where
    tbl: "fst (save_to_csv ?rows ?p (\<lambda>p. None)) ?p = Some (FIELDS # data)" and
    len: "length data = length ?rows" and
    each: "\<forall>i<length ?rows.
           length (data ! i) = 15 \<and>
           (\<forall>j<15. data ! i ! j =
              (case (?rows ! i) (FIELDS ! j) of Some (Some v) \<Rightarrow> v | _ \<Rightarrow> [])) \<and>
           (\<forall>f\<in>set FIELDS. \<forall>v. (?rows ! i) f = Some (Some v) \<longrightarrow>
              (reparse (FIELDS # data) ! i) f = Some v)"
    by blast
  have e0: "length (data ! 0) = 15 \<and>
           (\<forall>j<15. data ! 0 ! j =
              (case example_row1 (FIELDS ! j) of Some (Some v) \<Rightarrow> v | _ \<Rightarrow> [])) \<and>
           (\<forall>f\<in>set FIELDS. \<forall>v. example_row1 f = Some (Some v) \<longrightarrow>
              (reparse (FIELDS # data) ! 0) f = Some v)"
    using each by force
  have e1: "\<forall>j<15. data ! 1 ! j =
              (case example_row2 (FIELDS ! j) of Some (Some v) \<Rightarrow> v | _ \<Rightarrow> [])"
    using each by force
  have r12: "example_row1 (FIELDS ! 2) = Some (Some (u ''ACME''))"
    by (simp add: example_row1_def FIELDS_def)
  have r13: "example_row1 (FIELDS ! 3) = Some None"
    by (simp add: example_row1_def FIELDS_def)
  have r25: "example_row2 (FIELDS ! 5) = Some (Some (u ''Chiba''))"
    by (simp add: example_row2_def FIELDS_def)
  have f2: "FIELDS ! 2 \<in> set FIELDS" by (simp add: length_FIELDS)
  have c02: "data ! 0 ! 2 = u ''ACME''" using e0 r12 by simp
  have c03: "data ! 0 ! 3 = []" using e0 r13 by simp
  have c15: "data ! 1 ! 5 = u ''Chiba''" using e1 r25 by simp
  have rt: "(reparse (FIELDS # data) ! 0) (FIELDS ! 2) = Some (u ''ACME'')"
    using e0 f2 r12 by blast
  have l0: "length (data ! 0) = 15" using e0 by simp
  have emp: "save_to_csv [] ?p (\<lambda>p. None) = ((\<lambda>p. None), [WarnRowsEmpty])"
    using save_to_csv_table[of ?p "\<lambda>p. None" ?rows] by simp
  show ?thesis
    using emp tbl len l0 c02 c03 c15 rt by auto
qed

end
